theory Spec2Isabelle
  imports Main "HOL-Library.Word" "HOL-Library.Sublist"
begin

unbundle bit_operations_syntax

section \<open>Aborting the process\<close>

text \<open>\<open>msg_panic\<close> logs its text and aborts the process: a function that can panic returns
  \<open>Inl\<close> of the panic, or \<open>Inr\<close> of its result.\<close>

datatype panic = Panic string

section \<open>util/readline.c: reading one logical line\<close>

text \<open>
  The input stream is the list of bytes that are still unread; \<open>VSTREAM_GETC\<close> on the
  empty list is \<open>VSTREAM_EOF\<close>, and \<open>vstream_ungetc\<close> puts one byte back in front.
  The variable \<open>ch\<close> of the source is a \<open>char option\<close>, \<open>None\<close> being \<open>VSTREAM_EOF\<close>.
  The line counter is an optional cell (\<open>None\<close> is the null pointer) that holds a C
  \<open>int\<close>: a 32-bit word, read as a signed number with \<open>sint\<close>. Adding one to it wraps, so
  that one more than \<open>INT_MAX\<close> is \<open>INT_MIN\<close>, as the machine addition does.
\<close>

abbreviation NL :: char where "NL \<equiv> CHR 0x0A"
abbreviation TAB :: char where "TAB \<equiv> CHR 0x09"
abbreviation SPC :: char where "SPC \<equiv> CHR 0x20"

text \<open>The \<open>while\<close> loop of \<open>readline\<close>: the buffer so far, the stream, the line counter;
  it returns the buffer, the last value of \<open>ch\<close>, the stream and the counter.\<close>

fun readline_loop ::
  "string \<Rightarrow> string \<Rightarrow> 32 word option \<Rightarrow> string \<times> char option \<times> string \<times> 32 word option" where
  "readline_loop buf [] lineno = (buf, None, [], lineno)"
| "readline_loop buf (ch # fp) lineno =
     (if ch = NL then
        (case fp of
           [] \<Rightarrow> (buf, Some ch, [], map_option (\<lambda>n. n + 1) lineno)
         | nxt # fp' \<Rightarrow>
             if nxt = SPC \<or> nxt = TAB
             then readline_loop (buf @ [nxt]) fp' (map_option (\<lambda>n. n + 1) lineno)
             else (buf, Some ch, nxt # fp', map_option (\<lambda>n. n + 1) lineno))
      else readline_loop (buf @ [ch]) fp lineno)"

text \<open>\<open>readline\<close>: the result is \<open>Some\<close> of the buffer, or \<open>None\<close> for the null pointer,
  together with the stream and the line counter as the call leaves them.
  \<open>VSTRING_RESET\<close> empties the buffer first, so its earlier content plays no role.\<close>

definition readline :: "string \<Rightarrow> 32 word option \<Rightarrow> string option \<times> string \<times> 32 word option" where
  "readline fp lineno =
     (case readline_loop [] fp lineno of
        (buf, ch, fp', lineno') \<Rightarrow>
          (if length buf \<noteq> 0 \<or> ch = Some NL then Some buf else None, fp', lineno'))"

section \<open>src/trivial-rewrite/resolve.c: the address resolver\<close>

subsection \<open>Tokens, flags and parameter names\<close>

text \<open>
  Modelled from the spec: \<open>tok822.h\<close> and the token tree routines are not among the
  sources. A token is one of the spec's variants: \<open>ATOM\<close>, \<open>QSTRING\<close> (content stored
  unquoted), \<open>COMMENT\<close>, \<open>ADDR\<close> (with its sub-tree), \<open>STARTGRP\<close>, or a single-character
  operator, whose type is the character itself. The tree that \<open>tok822_scan_addr\<close> returns
  is an \<open>ADDR\<close> node; it is represented by the list of its tokens, from \<open>tree->head\<close> to
  \<open>tree->tail\<close>, the empty list when \<open>tree->head\<close> is null.
\<close>

datatype tok822 =
    TOK822_ATOM string
  | TOK822_QSTRING string
  | TOK822_COMMENT string
  | TOK822_ADDR "tok822 list"
  | TOK822_STARTGRP
  | TOK822_OP char

text \<open>
  Modelled from the spec: \<open>tok822_rfind_type\<close>, the nearest token with the given operator
  type, searching backwards from the given token (here: from the end of the list). The
  result is the pair of the tokens before the one found (its \<open>prev\<close> side) and the tokens
  after it (its \<open>next\<close> side), \<open>None\<close> for the null pointer.
\<close>

fun tok822_rfind_type :: "tok822 list \<Rightarrow> char \<Rightarrow> (tok822 list \<times> tok822 list) option" where
  "tok822_rfind_type [] c = None"
| "tok822_rfind_type (t # ts) c =
     (case tok822_rfind_type ts c of
        Some (before, after) \<Rightarrow> Some (t # before, after)
      | None \<Rightarrow> if t = TOK822_OP c then Some ([], ts) else None)"

text \<open>
  Modelled from the spec: \<open>resolve_clnt.h\<close>, which defines the flag values, is not among
  the sources. The spec has five classification bits and three condition bits, all
  disjoint; each is one bit of the flag word.
\<close>

definition RESOLVE_FLAG_ROUTED :: "32 word" where "RESOLVE_FLAG_ROUTED = 0x2"
definition RESOLVE_FLAG_ERROR :: "32 word" where "RESOLVE_FLAG_ERROR = 0x4"
definition RESOLVE_FLAG_FAIL :: "32 word" where "RESOLVE_FLAG_FAIL = 0x8"
definition RESOLVE_CLASS_LOCAL :: "32 word" where "RESOLVE_CLASS_LOCAL = 0x100"
definition RESOLVE_CLASS_ALIAS :: "32 word" where "RESOLVE_CLASS_ALIAS = 0x200"
definition RESOLVE_CLASS_VIRTUAL :: "32 word" where "RESOLVE_CLASS_VIRTUAL = 0x400"
definition RESOLVE_CLASS_RELAY :: "32 word" where "RESOLVE_CLASS_RELAY = 0x800"
definition RESOLVE_CLASS_DEFAULT :: "32 word" where "RESOLVE_CLASS_DEFAULT = 0x1000"

text \<open>
  Modelled from the spec: the parameter names of \<open>mail_params.h\<close> and the strings of
  \<open>mail_addr.h\<close>, \<open>rewrite_clnt.h\<close> and \<open>mail_conf.h\<close>, which are not among the sources; the
  names are the configuration names the spec lists.
\<close>

definition VAR_ERROR_TRANSPORT :: string where "VAR_ERROR_TRANSPORT = ''error_transport''"
definition VAR_VIRT_TRANSPORT :: string where "VAR_VIRT_TRANSPORT = ''virtual_transport''"
definition VAR_RELAY_TRANSPORT :: string where "VAR_RELAY_TRANSPORT = ''relay_transport''"
definition VAR_DEF_TRANSPORT :: string where "VAR_DEF_TRANSPORT = ''default_transport''"
definition VAR_LOCAL_TRANSPORT :: string where "VAR_LOCAL_TRANSPORT = ''local_transport''"
definition VAR_VIRT_ALIAS_DOMS :: string where "VAR_VIRT_ALIAS_DOMS = ''virtual_alias_domains''"
definition VAR_VIRT_MAILBOX_DOMS :: string where "VAR_VIRT_MAILBOX_DOMS = ''virtual_mailbox_domains''"
definition VAR_RELAY_DOMAINS :: string where "VAR_RELAY_DOMAINS = ''relay_domains''"
definition VAR_RELOCATED_MAPS :: string where "VAR_RELOCATED_MAPS = ''relocated_maps''"
definition VAR_TRANSPORT_MAPS :: string where "VAR_TRANSPORT_MAPS = ''transport_maps''"
definition VAR_MYDEST :: string where "VAR_MYDEST = ''mydestination''"
definition MAIN_CONF_FILE :: string where "MAIN_CONF_FILE = ''main.cf''"
definition MAIL_ADDR_POSTMASTER :: string where "MAIL_ADDR_POSTMASTER = ''postmaster''"
definition REWRITE_CANON :: string where "REWRITE_CANON = ''canonical''"

subsection \<open>The resolver context\<close>

text \<open>
  The configuration and the collaborators of \<open>resolve_addr\<close> whose code is not among the
  sources; they are parameters of the model. A match list or a map takes the name and
  the current value of the global \<open>dict_errno\<close> and returns its answer with the new
  value of \<open>dict_errno\<close>; a list or map that is not configured is \<open>None\<close> (the null
  pointer that \<open>resolve_init\<close> leaves). \<open>tok822_scan_addr\<close> gives the tokens of the tree it
  returns.
\<close>

record resolve_ctx =
  var_resolve_dequoted :: bool
  var_swap_bangpath :: bool
  var_percent_hack :: bool
  var_myhostname :: string
  var_error_transport :: string
  var_virt_transport :: string
  var_relay_transport :: string
  var_def_transport :: string
  var_local_transport :: string
  var_relayhost :: string
  var_transport_maps :: string
  var_config_dir :: string
  virt_alias_doms :: "(string \<Rightarrow> int \<Rightarrow> bool \<times> int) option"
  virt_mailbox_doms :: "(string \<Rightarrow> int \<Rightarrow> bool \<times> int) option"
  relay_domains :: "(string \<Rightarrow> int \<Rightarrow> bool \<times> int) option"
  relocated_maps :: "(string \<Rightarrow> int \<Rightarrow> string option \<times> int) option"
  transport_path :: "string \<Rightarrow> int \<Rightarrow> (string \<times> string) option \<times> int"
  quote_822_local :: "string \<Rightarrow> string"
  tok822_scan_addr :: "string \<Rightarrow> tok822 list"
  tok822_scan :: "string \<Rightarrow> tok822 list"
  tok822_internalize :: "tok822 list \<Rightarrow> string"
  rewrite_tree :: "string \<Rightarrow> tok822 list \<Rightarrow> tok822 list"
  resolve_local :: "string \<Rightarrow> bool"
  valid_hostname :: "string \<Rightarrow> bool"

text \<open>The variables of \<open>resolve_addr\<close> that outlive the stripping loop: the three result
  buffers, the flags, \<open>blame\<close>, the global \<open>dict_errno\<close>, and the warnings logged with
  \<open>msg_warn\<close>, in order.\<close>

record resolve_vars =
  channel :: string
  nexthop :: string
  nextrcpt :: string
  flags :: "32 word"
  blame :: "string option"
  dict_errno :: int
  warnings :: "string list"

definition msg_warn :: "string \<Rightarrow> resolve_vars \<Rightarrow> resolve_vars" where
  "msg_warn text st = st\<lparr>warnings := warnings st @ [text]\<rparr>"

text \<open>\<open>list && string_list_match(list, name)\<close> (or \<open>domain_list_match\<close>): false without a
  lookup when the list is not configured.\<close>

definition list_match ::
  "(string \<Rightarrow> int \<Rightarrow> bool \<times> int) option \<Rightarrow> string \<Rightarrow> resolve_vars \<Rightarrow> bool \<times> resolve_vars" where
  "list_match list nm st =
     (case list of
        None \<Rightarrow> (False, st)
      | Some m \<Rightarrow> (case m nm (dict_errno st) of (hit, e) \<Rightarrow> (hit, st\<lparr>dict_errno := e\<rparr>)))"

subsection \<open>String helpers\<close>

text \<open>Modelled from the spec: \<open>split_at\<close> and \<open>lowercase\<close> of the utility library, which are
  not among the sources. \<open>split_at\<close> splits at the first delimiter and returns the part
  after it, leaving the part before it in place; \<open>None\<close> when there is no delimiter.\<close>

definition split_at :: "string \<Rightarrow> char \<Rightarrow> (string \<times> string) option" where
  "split_at s c =
     (if c \<in> set s then Some (takeWhile (\<lambda>x. x \<noteq> c) s, tl (dropWhile (\<lambda>x. x \<noteq> c) s))
      else None)"

definition lowercase :: "string \<Rightarrow> string" where
  "lowercase s =
     map (\<lambda>c. if c \<in> set ''ABCDEFGHIJKLMNOPQRSTUVWXYZ''
               then char_of (of_char c + (32 :: nat)) else c) s"

text \<open>The C library's \<open>strspn\<close>, and \<open>strrchr(s, c) + 1\<close>: the part after the last \<open>c\<close>.\<close>

definition strspn :: "string \<Rightarrow> string \<Rightarrow> nat" where
  "strspn s accept = length (takeWhile (\<lambda>c. c \<in> set accept) s)"

definition strrchr_next :: "string \<Rightarrow> char \<Rightarrow> string option" where
  "strrchr_next s c =
     (if c \<in> set s then Some (rev (takeWhile (\<lambda>x. x \<noteq> c) (rev s))) else None)"

subsection \<open>The stripping loop\<close>

text \<open>
  The variables of the loop: the tokens of \<open>tree\<close>, the saved local domain (the \<open>@\<close> token
  and what follows it) and \<open>domain\<close>, a pointer to an \<open>@\<close> token, given by the tokens on
  its \<open>prev\<close> side and on its \<open>next\<close> side. After \<open>tok822_sub_keep_before(tree, domain)\<close> the
  token that \<open>domain\<close> points to heads the detached part, with nothing before it.
\<close>

record strip_state =
  tree :: "tok822 list"
  saved_domain :: "tok822 list option"
  domain :: "(tok822 list \<times> tok822 list) option"

datatype 'a loop_ctl = Continue 'a | Break 'a

text \<open>Strip a trailing dot at the end of the domain, but not dot-dot.\<close>

definition strip_dot :: "tok822 list \<Rightarrow> tok822 list" where
  "strip_dot ts =
     (if last ts = TOK822_OP CHR ''.'' \<and> tok822_rfind_type ts CHR ''@'' \<noteq> None
         \<and> last (butlast ts) \<noteq> TOK822_OP CHR ''.''
      then butlast ts else ts)"

text \<open>After stripping the local domain, if any: rewrite and retry while the address has
  an \<open>@\<close>, or a \<open>!\<close> or \<open>%\<close> that the configuration handles; otherwise no domain is left.\<close>

definition strip_retry :: "resolve_ctx \<Rightarrow> strip_state \<Rightarrow> strip_state loop_ctl" where
  "strip_retry ctx s =
     (if tok822_rfind_type (tree s) CHR ''@'' \<noteq> None
         \<or> (var_swap_bangpath ctx \<and> tok822_rfind_type (tree s) CHR ''!'' \<noteq> None)
         \<or> (var_percent_hack ctx \<and> tok822_rfind_type (tree s) CHR ''%'' \<noteq> None)
      then Continue (s\<lparr>tree := rewrite_tree ctx REWRITE_CANON (tree s)\<rparr>)
      else Break (s\<lparr>domain := None\<rparr>))"

text \<open>Strip (and save) \<open>@domain\<close> if local; leave the loop at a domain that is not.\<close>

definition strip_domain :: "resolve_ctx \<Rightarrow> strip_state \<Rightarrow> strip_state loop_ctl" where
  "strip_domain ctx s =
     (case tok822_rfind_type (tree s) CHR ''@'' of
        Some (before, after) \<Rightarrow>
          if \<not> resolve_local ctx (tok822_internalize ctx after)
          then Break (s\<lparr>domain := Some (before, after)\<rparr>)
          else strip_retry ctx
                 (s\<lparr>tree := before, saved_domain := Some (TOK822_OP CHR ''@'' # after),
                    domain := Some ([], after)\<rparr>)
      | None \<Rightarrow> strip_retry ctx (s\<lparr>domain := None\<rparr>))"

text \<open>One pass through the loop body, for a tree that has a token: the trailing dot, the
  trailing \<open>@\<close> (\<open>continue\<close>), the lone empty string that becomes the postmaster, and the
  rest of the body.\<close>

definition strip_iter :: "resolve_ctx \<Rightarrow> strip_state \<Rightarrow> strip_state loop_ctl" where
  "strip_iter ctx s =
     (let s1 = s\<lparr>tree := strip_dot (tree s)\<rparr> in
      if last (tree s1) = TOK822_OP CHR ''@''
      then Continue (s1\<lparr>tree := butlast (tree s1)\<rparr>)
      else strip_domain ctx
             (if tree s1 = [TOK822_QSTRING []]
              then s1\<lparr>tree := rewrite_tree ctx REWRITE_CANON (tok822_scan ctx MAIL_ADDR_POSTMASTER)\<rparr>
              else s1))"

text \<open>The loop \<open>while (tree->head)\<close>. The rewriting service is arbitrary, so the loop need
  not end: \<open>None\<close> is the run that never leaves it.\<close>

partial_function (option) resolve_strip :: "resolve_ctx \<Rightarrow> strip_state \<Rightarrow> strip_state option" where
  "resolve_strip ctx s =
     (if tree s = [] then Some s
      else (case strip_iter ctx s of
              Continue s' \<Rightarrow> resolve_strip ctx s'
            | Break s' \<Rightarrow> Some s'))"

subsection \<open>After the loop: routing operators and the recipient\<close>

definition resolve_routed :: "strip_state \<Rightarrow> 32 word" where
  "resolve_routed s =
     (case domain s of
        Some (prev, nxt) \<Rightarrow>
          if prev \<noteq> []
             \<and> (tok822_rfind_type prev CHR ''@'' \<noteq> None
                \<or> tok822_rfind_type prev CHR ''!'' \<noteq> None
                \<or> tok822_rfind_type prev CHR ''%'' \<noteq> None)
          then RESOLVE_FLAG_ROUTED else 0
      | None \<Rightarrow> 0)"

definition resolve_rcpt_tree :: "resolve_ctx \<Rightarrow> strip_state \<Rightarrow> tok822 list" where
  "resolve_rcpt_tree ctx s =
     (case domain s of
        Some d \<Rightarrow> tree s
      | None \<Rightarrow>
          (case saved_domain s of
             Some sd \<Rightarrow> tree s @ sd
           | None \<Rightarrow> tree s @ [TOK822_OP CHR ''@''] @ tok822_scan ctx (var_myhostname ctx)))"

subsection \<open>Classification\<close>

text \<open>The relayhost setting overrides the destination domain name.\<close>

definition resolve_relayhost :: "resolve_ctx \<Rightarrow> resolve_vars \<Rightarrow> resolve_vars" where
  "resolve_relayhost ctx st =
     (if var_relayhost ctx \<noteq> [] then st\<lparr>nexthop := var_relayhost ctx\<rparr> else st)"

text \<open>The cascade over the virtual alias domains, the virtual mailbox domains and the
  relay domains, for a destination that is not local (the \<open>if\<close> chain that assigns the
  channel).\<close>

definition resolve_relay_default :: "resolve_ctx \<Rightarrow> resolve_vars \<Rightarrow> resolve_vars" where
  "resolve_relay_default ctx st =
     resolve_relayhost ctx
       (case list_match (relay_domains ctx) (nexthop st) st of
          (hit, st1) \<Rightarrow>
            if hit then
              st1\<lparr>channel := var_relay_transport ctx, blame := Some VAR_RELAY_TRANSPORT,
                  flags := flags st1 OR RESOLVE_CLASS_RELAY\<rparr>
            else if dict_errno st1 \<noteq> 0 then
              (msg_warn (VAR_RELAY_DOMAINS @ '' lookup failure'') st1)
                \<lparr>flags := flags st1 OR RESOLVE_FLAG_FAIL\<rparr>
            else
              st1\<lparr>channel := var_def_transport ctx, blame := Some VAR_DEF_TRANSPORT,
                  flags := flags st1 OR RESOLVE_CLASS_DEFAULT\<rparr>)"

definition resolve_cascade :: "resolve_ctx \<Rightarrow> resolve_vars \<Rightarrow> resolve_vars" where
  "resolve_cascade ctx st =
     (case list_match (virt_alias_doms ctx) (nexthop st) st of
        (alias, st1) \<Rightarrow>
          if alias then
            (case list_match (virt_mailbox_doms ctx) (nexthop st1) st1 of
               (both, st2) \<Rightarrow>
                 (if both
                  then msg_warn (''do not list domain '' @ nexthop st2 @ '' in BOTH ''
                         @ VAR_VIRT_ALIAS_DOMS @ '' and '' @ VAR_VIRT_MAILBOX_DOMS) st2
                  else st2)
                 \<lparr>channel := var_error_transport ctx, nexthop := ''User unknown'',
                  blame := Some VAR_ERROR_TRANSPORT,
                  flags := flags st2 OR RESOLVE_CLASS_ALIAS\<rparr>)
          else if dict_errno st1 \<noteq> 0 then
            (msg_warn (VAR_VIRT_ALIAS_DOMS @ '' lookup failure'') st1)
              \<lparr>flags := flags st1 OR RESOLVE_FLAG_FAIL\<rparr>
          else
            (case list_match (virt_mailbox_doms ctx) (nexthop st1) st1 of
               (mailbox, st2) \<Rightarrow>
                 if mailbox then
                   st2\<lparr>channel := var_virt_transport ctx, blame := Some VAR_VIRT_TRANSPORT,
                       flags := flags st2 OR RESOLVE_CLASS_VIRTUAL\<rparr>
                 else if dict_errno st2 \<noteq> 0 then
                   (msg_warn (VAR_VIRT_MAILBOX_DOMS @ '' lookup failure'') st2)
                     \<lparr>flags := flags st2 OR RESOLVE_FLAG_FAIL\<rparr>
                 else resolve_relay_default ctx st2))"

text \<open>The split of the channel at its first colon, for a destination that is not local: a
  part after the colon that is not empty becomes the next hop.\<close>

definition resolve_channel_split :: "resolve_vars \<Rightarrow> resolve_vars" where
  "resolve_channel_split st =
     (case split_at (channel st) CHR '':'' of
        None \<Rightarrow> st
      | Some (transport, destination) \<Rightarrow>
          if destination \<noteq> [] then st\<lparr>channel := transport, nexthop := destination\<rparr>
          else st\<lparr>channel := transport\<rparr>)"

text \<open>The branch \<open>domain != 0\<close>: the next hop is the domain in lower case, \<open>ERROR\<close> marks a
  domain that is neither numeric nor a valid host name, then the cascade and the split.\<close>

definition resolve_nexthop_domain :: "resolve_ctx \<Rightarrow> tok822 list \<Rightarrow> resolve_vars \<Rightarrow> resolve_vars" where
  "resolve_nexthop_domain ctx nxt st =
     (let h = lowercase (tok822_internalize ctx nxt) in
      st\<lparr>nexthop := h,
         flags := (if strspn h ''[]0123456789.'' < length h \<and> \<not> valid_hostname ctx h
                   then flags st OR RESOLVE_FLAG_ERROR else flags st)\<rparr>)"

definition resolve_class_nonlocal :: "resolve_ctx \<Rightarrow> tok822 list \<Rightarrow> resolve_vars \<Rightarrow> resolve_vars" where
  "resolve_class_nonlocal ctx nxt st =
     resolve_channel_split (resolve_cascade ctx (resolve_nexthop_domain ctx nxt st))"

text \<open>The branch \<open>domain == 0\<close>: local delivery, with warnings for a recipient domain that
  is also listed as a virtual domain.\<close>

definition resolve_local_warn :: "resolve_ctx \<Rightarrow> resolve_vars \<Rightarrow> resolve_vars" where
  "resolve_local_warn ctx st =
     (case strrchr_next (nextrcpt st) CHR ''@'' of
        None \<Rightarrow> st
      | Some rcpt_domain \<Rightarrow>
          (case list_match (virt_alias_doms ctx) rcpt_domain st of
             (alias, st1) \<Rightarrow>
               (case list_match (virt_mailbox_doms ctx) rcpt_domain
                       (if alias
                        then msg_warn (''do not list domain '' @ rcpt_domain @ '' in BOTH ''
                               @ VAR_MYDEST @ '' and '' @ VAR_VIRT_ALIAS_DOMS) st1
                        else st1) of
                  (mailbox, st2) \<Rightarrow>
                    if mailbox
                    then msg_warn (''do not list domain '' @ rcpt_domain @ '' in BOTH ''
                           @ VAR_MYDEST @ '' and '' @ VAR_VIRT_MAILBOX_DOMS) st2
                    else st2)))"

definition resolve_class_local :: "resolve_ctx \<Rightarrow> resolve_vars \<Rightarrow> resolve_vars" where
  "resolve_class_local ctx st =
     (let st1 = resolve_local_warn ctx st in
      (case split_at (var_local_transport ctx) CHR '':'' of
         None \<Rightarrow>
           st1\<lparr>channel := var_local_transport ctx, nexthop := var_myhostname ctx,
               blame := Some VAR_LOCAL_TRANSPORT,
               flags := flags st1 OR RESOLVE_CLASS_LOCAL\<rparr>
       | Some (transport, destination) \<Rightarrow>
           st1\<lparr>channel := transport,
               nexthop := (if destination = [] then var_myhostname ctx else destination),
               blame := Some VAR_LOCAL_TRANSPORT,
               flags := flags st1 OR RESOLVE_CLASS_LOCAL\<rparr>))"

text \<open>Lines 204 to 311: the flags start from the \<open>ROUTED\<close> test, the recipient is the
  internal form of the tree, \<open>dict_errno\<close> is reset, and the destination is classified.\<close>

definition resolve_classify ::
  "resolve_ctx \<Rightarrow> strip_state \<Rightarrow> string \<Rightarrow> string \<Rightarrow> resolve_vars" where
  "resolve_classify ctx s channel0 nexthop0 =
     (let st = \<lparr>channel = channel0, nexthop = nexthop0,
                nextrcpt = tok822_internalize ctx (resolve_rcpt_tree ctx s),
                flags = resolve_routed s, blame = None, dict_errno = 0, warnings = []\<rparr>
      in case domain s of
           Some (prev, nxt) \<Rightarrow> resolve_class_nonlocal ctx nxt st
         | None \<Rightarrow> resolve_class_local ctx st)"

subsection \<open>Sanity checks and overrides\<close>

definition resolve_sanity :: "resolve_ctx \<Rightarrow> resolve_vars \<Rightarrow> panic + resolve_vars" where
  "resolve_sanity ctx st =
     (if flags st AND RESOLVE_FLAG_FAIL = 0 then
        (case (if channel st = [] then
                 (case blame st of
                    None \<Rightarrow> Inl (Panic ''resolve_addr: null blame'')
                  | Some b \<Rightarrow>
                      Inr ((msg_warn (''file '' @ var_config_dir ctx @ ''/'' @ MAIN_CONF_FILE
                              @ '': parameter '' @ b @ '': null transport is not allowed'') st)
                            \<lparr>flags := flags st OR RESOLVE_FLAG_FAIL\<rparr>))
               else Inr st) of
           Inl e \<Rightarrow> Inl e
         | Inr st1 \<Rightarrow>
             if nexthop st1 = [] then Inl (Panic ''resolve_addr: null nexthop'') else Inr st1)
      else Inr st)"

text \<open>Bounce recipients that have moved.\<close>

definition resolve_relocated :: "resolve_ctx \<Rightarrow> resolve_vars \<Rightarrow> resolve_vars" where
  "resolve_relocated ctx st =
     (if flags st AND RESOLVE_FLAG_FAIL = 0 then
        (case relocated_maps ctx of
           None \<Rightarrow> st
         | Some mail_addr_find \<Rightarrow>
             (case mail_addr_find (nextrcpt st) (dict_errno st) of
                (Some newloc, e) \<Rightarrow>
                  st\<lparr>channel := var_error_transport ctx,
                     nexthop := ''user has moved to '' @ newloc, dict_errno := e\<rparr>
              | (None, e) \<Rightarrow>
                  if e \<noteq> 0 then
                    (msg_warn (VAR_RELOCATED_MAPS @ '' lookup failure'') st)
                      \<lparr>flags := flags st OR RESOLVE_FLAG_FAIL, dict_errno := e\<rparr>
                  else st\<lparr>dict_errno := e\<rparr>))
      else st)"

text \<open>
  Modelled from the spec: \<open>transport_lookup\<close> of \<open>transport.c\<close>, which is not among the
  sources. The spec: look up the recipient; on a hit replace channel and/or next hop per
  the map value. A map value is a transport and a next hop, each possibly empty; an empty
  one leaves the current value. The result is whether an entry was found.
\<close>

definition transport_lookup :: "resolve_ctx \<Rightarrow> resolve_vars \<Rightarrow> bool \<times> resolve_vars" where
  "transport_lookup ctx st =
     (case transport_path ctx (nextrcpt st) (dict_errno st) of
        (Some (transport, host), e) \<Rightarrow>
          (True, st\<lparr>channel := (if transport \<noteq> [] then transport else channel st),
                     nexthop := (if host \<noteq> [] then host else nexthop st),
                     dict_errno := e\<rparr>)
      | (None, e) \<Rightarrow> (False, st\<lparr>dict_errno := e\<rparr>))"

text \<open>The transport map overrides any transport and next-hop host info that is set up
  above, but not the error transport.\<close>

definition resolve_transport :: "resolve_ctx \<Rightarrow> resolve_vars \<Rightarrow> resolve_vars" where
  "resolve_transport ctx st =
     (if flags st AND RESOLVE_FLAG_FAIL = 0 \<and> var_transport_maps ctx \<noteq> []
         \<and> channel st \<noteq> var_error_transport ctx
      then (case transport_lookup ctx st of
              (found, st1) \<Rightarrow>
                if \<not> found \<and> dict_errno st1 \<noteq> 0
                then (msg_warn (VAR_TRANSPORT_MAPS @ '' lookup failure'') st1)
                       \<lparr>flags := flags st1 OR RESOLVE_FLAG_FAIL\<rparr>
                else st1)
      else st)"

subsection \<open>resolve_addr\<close>

text \<open>The tree of the address: the unquoted form is scanned as it is when
  \<open>var_resolve_dequoted\<close> is set, the quoted form otherwise.\<close>

definition resolve_parse :: "resolve_ctx \<Rightarrow> string \<Rightarrow> tok822 list" where
  "resolve_parse ctx addr =
     (if var_resolve_dequoted ctx then tok822_scan_addr ctx addr
      else tok822_scan_addr ctx (quote_822_local ctx addr))"

text \<open>Everything up to the transport map: \<open>None\<close> when the stripping loop does not end,
  \<open>Inl\<close> when the sanity checks panic.\<close>

definition resolve_before_transport ::
  "resolve_ctx \<Rightarrow> string \<Rightarrow> string \<Rightarrow> string \<Rightarrow> (panic + resolve_vars) option" where
  "resolve_before_transport ctx addr channel0 nexthop0 =
     (case resolve_strip ctx \<lparr>tree = resolve_parse ctx addr, saved_domain = None, domain = None\<rparr> of
        None \<Rightarrow> None
      | Some s \<Rightarrow>
          Some (case resolve_sanity ctx (resolve_classify ctx s channel0 nexthop0) of
                  Inl e \<Rightarrow> Inl e
                | Inr st \<Rightarrow> Inr (resolve_relocated ctx st)))"

text \<open>\<open>resolve_addr\<close>: the address and the content of the channel and next-hop buffers at
  the call (they are written only on some paths) to the state at return.\<close>

definition resolve_addr ::
  "resolve_ctx \<Rightarrow> string \<Rightarrow> string \<Rightarrow> string \<Rightarrow> (panic + resolve_vars) option" where
  "resolve_addr ctx addr channel0 nexthop0 =
     (case resolve_before_transport ctx addr channel0 nexthop0 of
        None \<Rightarrow> None
      | Some (Inl e) \<Rightarrow> Some (Inl e)
      | Some (Inr st) \<Rightarrow> Some (Inr (resolve_transport ctx st)))"

text \<open>The classification bits that are set in a flag word.\<close>

definition resolve_class_bits :: "32 word \<Rightarrow> 32 word list" where
  "resolve_class_bits f =
     filter (\<lambda>m. f AND m \<noteq> 0)
       [RESOLVE_CLASS_LOCAL, RESOLVE_CLASS_ALIAS, RESOLVE_CLASS_VIRTUAL, RESOLVE_CLASS_RELAY,
        RESOLVE_CLASS_DEFAULT]"

subsection \<open>The configuration of the spec's scenarios\<close>

text \<open>
  Collaborators for the scenarios of the spec, enough for the addresses used there. The
  scanner makes an atom of each run of ordinary characters, an operator token of each
  special character and a quoted-string token of the text between two double quotes; the
  internal form is the text of the tokens one after the other; quoting puts an empty local
  part between double quotes and leaves the scenario addresses as they are; canonical
  rewriting appends \<open>@\<close> and the origin domain to an address that has a token but no \<open>@\<close>.
\<close>

definition flush_atom :: "string \<Rightarrow> tok822 list" where
  "flush_atom acc = (if acc = [] then [] else [TOK822_ATOM acc])"

fun example_scan_from :: "bool \<Rightarrow> string \<Rightarrow> string \<Rightarrow> tok822 list" where
  "example_scan_from quoted acc [] =
     (if quoted then [TOK822_QSTRING acc] else flush_atom acc)"
| "example_scan_from quoted acc (c # cs) =
     (if quoted then
        (if c = CHR 0x22 then TOK822_QSTRING acc # example_scan_from False [] cs
         else example_scan_from True (acc @ [c]) cs)
      else if c = CHR 0x22 then flush_atom acc @ example_scan_from True [] cs
      else if c \<in> set ''@.!%<>,;:[]()'' then flush_atom acc @ TOK822_OP c # example_scan_from False [] cs
      else example_scan_from False (acc @ [c]) cs)"

definition example_scan :: "string \<Rightarrow> tok822 list" where
  "example_scan s = example_scan_from False [] s"

fun example_internalize_tok :: "tok822 \<Rightarrow> string" where
  "example_internalize_tok (TOK822_ATOM s) = s"
| "example_internalize_tok (TOK822_QSTRING s) = s"
| "example_internalize_tok (TOK822_COMMENT s) = s"
| "example_internalize_tok (TOK822_ADDR ts) = ''<'' @ concat (map example_internalize_tok ts) @ ''>''"
| "example_internalize_tok TOK822_STARTGRP = '':''"
| "example_internalize_tok (TOK822_OP c) = [c]"

definition example_internalize :: "tok822 list \<Rightarrow> string" where
  "example_internalize ts = concat (map example_internalize_tok ts)"

definition example_quote :: "string \<Rightarrow> string" where
  "example_quote s = (if s = [] then [CHR 0x22, CHR 0x22] else s)"

definition example_rewrite :: "string \<Rightarrow> string \<Rightarrow> tok822 list \<Rightarrow> tok822 list" where
  "example_rewrite origin rule ts =
     (if ts \<noteq> [] \<and> tok822_rfind_type ts CHR ''@'' = None
      then ts @ [TOK822_OP CHR ''@''] @ example_scan origin else ts)"

definition no_lookup :: "string \<Rightarrow> int \<Rightarrow> (string \<times> string) option \<times> int" where
  "no_lookup key e = (None, e)"

definition domain_is :: "string \<Rightarrow> string \<Rightarrow> int \<Rightarrow> bool \<times> int" where
  "domain_is d nm e = (nm = d, e)"

text \<open>The scenario configuration: \<open>myhostname = mx.example.com\<close>,
  \<open>mydestination = example.com\<close>, the default transports, all lists and maps empty; the
  address is parsed in its quoted form and unqualified addresses get the domain
  \<open>example.com\<close>.\<close>

definition scenario_ctx :: resolve_ctx where
  "scenario_ctx =
     \<lparr>var_resolve_dequoted = False, var_swap_bangpath = True, var_percent_hack = True,
      var_myhostname = ''mx.example.com'', var_error_transport = ''error'',
      var_virt_transport = ''virtual'', var_relay_transport = ''relay'',
      var_def_transport = ''smtp'', var_local_transport = ''local'', var_relayhost = [],
      var_transport_maps = [], var_config_dir = ''/etc/postfix'',
      virt_alias_doms = None, virt_mailbox_doms = None, relay_domains = None,
      relocated_maps = None, transport_path = no_lookup,
      quote_822_local = example_quote, tok822_scan_addr = example_scan,
      tok822_scan = example_scan, tok822_internalize = example_internalize,
      rewrite_tree = example_rewrite ''example.com'',
      resolve_local = (\<lambda>d. d = ''example.com''),
      valid_hostname = (\<lambda>h. h \<noteq> [] \<and> CHR ''_'' \<notin> set h)\<rparr>"

text \<open>The scenario configuration with the virtual mailbox domain \<open>vbox.org\<close>, the virtual
  alias domain \<open>valias.org\<close>, the relay domain \<open>client.org\<close> and a relayhost.\<close>

definition relayhost_ctx :: resolve_ctx where
  "relayhost_ctx =
     scenario_ctx\<lparr>var_relayhost := ''smart.isp.net'',
       virt_alias_doms := Some (domain_is ''valias.org''),
       virt_mailbox_doms := Some (domain_is ''vbox.org''),
       relay_domains := Some (domain_is ''client.org'')\<rparr>"

text \<open>The configuration of scenario 8, with a relayhost as well.\<close>

definition colon_ctx :: resolve_ctx where
  "colon_ctx =
     scenario_ctx\<lparr>var_def_transport := ''smtp:relay.isp.net'', var_relayhost := ''smart.isp.net''\<rparr>"

text \<open>The scenario configuration with an empty \<open>default_transport\<close>.\<close>

definition null_transport_ctx :: resolve_ctx where
  "null_transport_ctx = scenario_ctx\<lparr>var_def_transport := []\<rparr>"

text \<open>The scenario configuration with a virtual alias domain, a relocated address, and a
  transport map that has an entry for every recipient.\<close>

definition moved_lookup :: "string \<Rightarrow> int \<Rightarrow> string option \<times> int" where
  "moved_lookup key e = (if key = ''old@example.com'' then Some ''new@elsewhere.org'' else None, e)"

definition uucp_lookup :: "string \<Rightarrow> int \<Rightarrow> (string \<times> string) option \<times> int" where
  "uucp_lookup key e = (Some (''uucp'', ''gateway''), e)"

definition transport_ctx :: resolve_ctx where
  "transport_ctx =
     scenario_ctx\<lparr>var_transport_maps := ''hash:/etc/postfix/transport'',
       virt_alias_doms := Some (domain_is ''valias.org''),
       relocated_maps := Some moved_lookup, transport_path := uucp_lookup\<rparr>"

text \<open>The same configuration with an \<open>error_transport\<close> that ends in a colon, the
  form \<open>transport:nexthop\<close> with no next hop.\<close>

definition error_colon_ctx :: resolve_ctx where
  "error_colon_ctx = transport_ctx\<lparr>var_error_transport := ''error:''\<rparr>"

text \<open>The scenario configuration with \<open>resolve_dequoted_address\<close> switched on.\<close>

definition dequoted_ctx :: resolve_ctx where
  "dequoted_ctx = scenario_ctx\<lparr>var_resolve_dequoted := True\<rparr>"

text \<open>The scenario configuration with canonical rewriting that appends the host name
  \<open>mx.example.com\<close> to an unqualified address.\<close>

definition origin_ctx :: resolve_ctx where
  "origin_ctx = scenario_ctx\<lparr>rewrite_tree := example_rewrite ''mx.example.com''\<rparr>"

section \<open>smtp/smtp_addr.c: SMTP server address lookup\<close>

subsection \<open>Resource records and the DNS client\<close>

text \<open>
  Modelled from the spec: \<open>dns.h\<close>, which declares \<open>DNS_RR\<close>, is not among the sources.
  A record has the fields of the spec's data model (name, type, class, ttl, pref, data);
  \<open>data_len\<close> is the length of \<open>data\<close> and \<open>next\<close> is the tail of the list the record
  stands in. The preference is the unsigned 16-bit preference of an MX record, which C
  promotes to \<open>int\<close> where \<open>smtp_compare_mx\<close> subtracts two of them. A pointer to a record
  of a list is the suffix of the list that starts there, the null pointer the empty list.
\<close>

record dns_rr =
  name :: string
  rtype :: nat
  rclass :: nat
  ttl :: nat
  pref :: "16 word"
  data :: string

definition T_A :: nat where "T_A = 1"
definition T_MX :: nat where "T_MX = 15"

text \<open>Modelled from the spec: the four results of a lookup (\<open>OK\<close>, \<open>NOT_FOUND\<close>, \<open>FAIL\<close>,
  \<open>RETRY\<close>) of the DNS client, whose code is not among the sources.\<close>

datatype dns_status = DNS_OK | DNS_NOTFOUND | DNS_FAIL | DNS_RETRY

datatype smtp_error = SMTP_NONE | SMTP_RETRY | SMTP_FAIL

text \<open>The state the lookup routines write: the global \<open>smtp_errno\<close> and the buffer \<open>why\<close>.\<close>

record smtp_state =
  smtp_errno :: smtp_error
  why :: string

text \<open>
  What the routines take from outside: the DNS client (name and record type to status,
  records and the diagnostic it writes to \<open>why\<close>, \<open>None\<close> when it leaves \<open>why\<close> as it
  is), the addresses this mail system listens on (\<open>own_inet_addr_list\<close>), and the C
  library's \<open>inet_addr\<close>.
\<close>

record smtp_env =
  dns_lookup :: "string \<Rightarrow> nat \<Rightarrow> dns_status \<times> dns_rr list \<times> string option"
  own_inet_addr_list :: "32 word list"
  inet_addr :: "string \<Rightarrow> 32 word"

definition set_why :: "string option \<Rightarrow> smtp_state \<Rightarrow> smtp_state" where
  "set_why w st = (case w of None \<Rightarrow> st | Some d \<Rightarrow> st\<lparr>why := d\<rparr>)"

definition INADDR_NONE :: "32 word" where "INADDR_NONE = 0xffffffff"

text \<open>\<open>INADDRP(x)->s_addr\<close>: the first four bytes of the record data read as one 32-bit
  value, most significant byte first; \<open>in_addr_data\<close> is the way back, the four bytes
  that \<open>dns_rr_create\<close> copies from \<open>&addr\<close>.\<close>

definition INADDRP :: "string \<Rightarrow> 32 word" where
  "INADDRP d = foldl (\<lambda>w c. push_bit 8 w OR of_char c) 0 (take 4 d)"

definition in_addr_data :: "32 word \<Rightarrow> string" where
  "in_addr_data a = [char_of (unat (drop_bit 24 a)), char_of (unat (drop_bit 16 a)),
     char_of (unat (drop_bit 8 a)), char_of (unat a)]"

text \<open>Modelled from the spec: \<open>dns_rr_append\<close> and \<open>dns_rr_create\<close> of \<open>dns_rr.c\<close>, which is
  not among the sources: appending one record list to another, and making one record from
  a name, the fixed part (type, class, ttl), a preference and the data.\<close>

definition dns_rr_append :: "dns_rr list \<Rightarrow> dns_rr list \<Rightarrow> dns_rr list" where
  "dns_rr_append list rr = list @ rr"

definition dns_rr_create :: "string \<Rightarrow> nat \<times> nat \<times> nat \<Rightarrow> 16 word \<Rightarrow> string \<Rightarrow> dns_rr" where
  "dns_rr_create nm fixed p d =
     (case fixed of (ty, cl, tt) \<Rightarrow>
        \<lparr>name = nm, rtype = ty, rclass = cl, ttl = tt, pref = p, data = d\<rparr>)"

text \<open>Modelled from the spec: \<open>dns_rr_sort\<close> of \<open>dns_rr.c\<close>, which is not among the
  sources. The spec has the record list sorted by a comparator that the caller supplies,
  and the MX records stable-sorted by ascending preference: an insertion sort that puts a
  record in front of the first one it does not compare greater than, run from the right.\<close>

fun dns_rr_insort :: "(dns_rr \<Rightarrow> dns_rr \<Rightarrow> int) \<Rightarrow> dns_rr \<Rightarrow> dns_rr list \<Rightarrow> dns_rr list" where
  "dns_rr_insort compar x [] = [x]"
| "dns_rr_insort compar x (y # ys) =
     (if compar x y \<le> 0 then x # y # ys else y # dns_rr_insort compar x ys)"

definition dns_rr_sort :: "dns_rr list \<Rightarrow> (dns_rr \<Rightarrow> dns_rr \<Rightarrow> int) \<Rightarrow> dns_rr list" where
  "dns_rr_sort list compar = foldr (dns_rr_insort compar) list []"

subsection \<open>The lookup routines\<close>

text \<open>\<open>smtp_addr_one\<close>: address lookup for one host name. The records of a successful
  lookup get the preference \<open>p\<close> (an \<open>unsigned\<close>, stored into the 16-bit field) and are
  appended to the list; a failed lookup sets \<open>smtp_errno\<close>.\<close>

definition smtp_addr_one ::
  "smtp_env \<Rightarrow> dns_rr list \<Rightarrow> string \<Rightarrow> 32 word \<Rightarrow> smtp_state \<Rightarrow> dns_rr list \<times> smtp_state" where
  "smtp_addr_one env addr_list host p st =
     (case dns_lookup env host T_A of
        (status, addr, w) \<Rightarrow>
          (case status of
             DNS_OK \<Rightarrow>
               (dns_rr_append addr_list (map (\<lambda>rr. rr\<lparr>pref := ucast p\<rparr>) addr),
                set_why w st)
           | DNS_NOTFOUND \<Rightarrow> (addr_list, (set_why w st)\<lparr>smtp_errno := SMTP_FAIL\<rparr>)
           | DNS_FAIL \<Rightarrow> (addr_list, (set_why w st)\<lparr>smtp_errno := SMTP_FAIL\<rparr>)
           | DNS_RETRY \<Rightarrow> (addr_list, (set_why w st)\<lparr>smtp_errno := SMTP_RETRY\<rparr>)))"

text \<open>The digits that the format \<open>%d\<close> prints for a number that is not negative.\<close>

fun decimal_digits :: "nat \<Rightarrow> string" where
  "decimal_digits n =
     (if n < 10 then [''0123456789'' ! n]
      else decimal_digits (n div 10) @ [''0123456789'' ! (n mod 10)])"

declare decimal_digits.simps [simp del]

text \<open>\<open>smtp_addr_list\<close>: address lookup for a list of mail exchangers; the loop over
  \<open>mx_names\<close> carries \<open>addr_list\<close> and panics at a record that is not an MX record, with
  the type of the record in the text.\<close>

fun smtp_addr_list_loop ::
  "smtp_env \<Rightarrow> dns_rr list \<Rightarrow> dns_rr list \<Rightarrow> smtp_state \<Rightarrow> panic + dns_rr list \<times> smtp_state" where
  "smtp_addr_list_loop env [] addr_list st = Inr (addr_list, st)"
| "smtp_addr_list_loop env (rr # mx_names) addr_list st =
     (if rtype rr \<noteq> T_MX then Inl (Panic (''smtp_addr_list: bad resource type: '' @ decimal_digits (rtype rr)))
      else (case smtp_addr_one env addr_list (data rr) (ucast (pref rr)) st of
              (addr_list', st') \<Rightarrow> smtp_addr_list_loop env mx_names addr_list' st'))"

definition smtp_addr_list ::
  "smtp_env \<Rightarrow> dns_rr list \<Rightarrow> smtp_state \<Rightarrow> panic + dns_rr list \<times> smtp_state" where
  "smtp_addr_list env mx_names st = smtp_addr_list_loop env mx_names [] st"

text \<open>\<open>smtp_find_self\<close>: the first record whose address is one this mail system listens
  on, as the suffix of the list that starts at that record; \<open>[]\<close> when there is none.\<close>

fun smtp_find_self :: "smtp_env \<Rightarrow> dns_rr list \<Rightarrow> dns_rr list" where
  "smtp_find_self env [] = []"
| "smtp_find_self env (addr # rest) =
     (if list_ex (\<lambda>self. INADDRP (data addr) = self) (own_inet_addr_list env)
      then addr # rest else smtp_find_self env rest)"

text \<open>\<open>smtp_truncate_self\<close>: truncate the address list at the first record with the
  given preference. The loop carries the records passed so far (\<open>last\<close> is null exactly
  when there is none).\<close>

fun smtp_truncate_loop ::
  "dns_rr list \<Rightarrow> 32 word \<Rightarrow> string \<Rightarrow> smtp_state \<Rightarrow> dns_rr list \<Rightarrow> dns_rr list
     \<Rightarrow> dns_rr list \<times> smtp_state" where
  "smtp_truncate_loop addr_list p nm st passed [] = (addr_list, st)"
| "smtp_truncate_loop addr_list p nm st passed (addr # rest) =
     (if p = ucast (pref addr) then
        (if passed = []
         then ([], st\<lparr>why := ''mail for '' @ nm @ '' loops back to myself'',
                       smtp_errno := SMTP_FAIL\<rparr>)
         else (passed, st))
      else smtp_truncate_loop addr_list p nm st (passed @ [addr]) rest)"

definition smtp_truncate_self ::
  "dns_rr list \<Rightarrow> 32 word \<Rightarrow> string \<Rightarrow> smtp_state \<Rightarrow> dns_rr list \<times> smtp_state" where
  "smtp_truncate_self addr_list p nm st = smtp_truncate_loop addr_list p nm st [] addr_list"

text \<open>\<open>smtp_compare_mx\<close>: compare resource records by preference.\<close>

definition smtp_compare_mx :: "dns_rr \<Rightarrow> dns_rr \<Rightarrow> int" where
  "smtp_compare_mx a b = uint (pref a) - uint (pref b)"

text \<open>\<open>ISDIGIT\<close> of the first character of a C string; the empty string starts with the
  terminating null byte.\<close>

definition ISDIGIT :: "char \<Rightarrow> bool" where
  "ISDIGIT c = (c \<in> set ''0123456789'')"

definition PREF0 :: "32 word" where "PREF0 = 0"

text \<open>\<open>smtp_host_addr\<close>: direct host lookup.\<close>

definition smtp_host_addr :: "smtp_env \<Rightarrow> string \<Rightarrow> smtp_state \<Rightarrow> dns_rr list \<times> smtp_state" where
  "smtp_host_addr env host st =
     (if (case host of [] \<Rightarrow> False | c # _ \<Rightarrow> ISDIGIT c) \<and> inet_addr env host \<noteq> INADDR_NONE
      then ([dns_rr_create host (0, 0, 0) (ucast PREF0) (in_addr_data (inet_addr env host))], st)
      else smtp_addr_one env [] host PREF0 st)"

text \<open>\<open>smtp_domain_addr\<close>: mail exchanger address lookup.\<close>

definition smtp_domain_addr ::
  "smtp_env \<Rightarrow> string \<Rightarrow> smtp_state \<Rightarrow> panic + dns_rr list \<times> smtp_state" where
  "smtp_domain_addr env nm st =
     (case dns_lookup env nm T_MX of
        (status, mx_names, w) \<Rightarrow>
          (case status of
             DNS_RETRY \<Rightarrow> Inr ([], (set_why w st)\<lparr>smtp_errno := SMTP_RETRY\<rparr>)
           | DNS_FAIL \<Rightarrow> Inr ([], (set_why w st)\<lparr>smtp_errno := SMTP_FAIL\<rparr>)
           | DNS_OK \<Rightarrow>
               (case smtp_addr_list env (dns_rr_sort mx_names smtp_compare_mx) (set_why w st) of
                  Inl e \<Rightarrow> Inl e
                | Inr (addr_list, st') \<Rightarrow>
                    (case smtp_find_self env addr_list of
                       [] \<Rightarrow> Inr (addr_list, st')
                     | self # _ \<Rightarrow>
                         Inr (smtp_truncate_self addr_list (ucast (pref self)) nm st')))
           | DNS_NOTFOUND \<Rightarrow> Inr (smtp_host_addr env nm (set_why w st))))"

text \<open>For the statements about the order of the result: the address records the
  resolver returns for the host of one MX record, in the resolver's order, each with the
  preference of that MX record; none when the lookup fails.\<close>

definition mx_addr_records :: "smtp_env \<Rightarrow> dns_rr \<Rightarrow> dns_rr list" where
  "mx_addr_records env mx =
     (case dns_lookup env (data mx) T_A of
        (DNS_OK, addr, w) \<Rightarrow> map (\<lambda>rr. rr\<lparr>pref := pref mx\<rparr>) addr
      | _ \<Rightarrow> [])"





text \<open>
  The \<open>inet_addr\<close> of the C library, for the examples. It is no code of this program;
  the definitions follow the routine of the GNU C library. The string holds one to four
  numbers with dots between them. Each number starts with a digit and is read as
  \<open>strtoul\<close> with base 0 reads it: hexadecimal after \<open>0x\<close> or \<open>0X\<close>, octal after a leading
  \<open>0\<close>, decimal otherwise. Every number but the last is one byte of the address, the last
  number fills the bytes that are left. After the last number the string ends, or white
  space follows. A string that is not of this form gives \<open>INADDR_NONE\<close>.
\<close>

definition digit_value :: "char \<Rightarrow> nat" where
  "digit_value c =
     (if c \<in> set ''0123456789'' then of_char c - 48
      else if c \<in> set ''abcdef'' then of_char c - 87
      else if c \<in> set ''ABCDEF'' then of_char c - 55
      else 36)"

definition strtoul_digits :: "nat \<Rightarrow> string \<Rightarrow> nat \<times> string" where
  "strtoul_digits base s =
     (foldl (\<lambda>n c. base * n + digit_value c) 0 (takeWhile (\<lambda>c. digit_value c < base) s),
      dropWhile (\<lambda>c. digit_value c < base) s)"

definition strtoul_base0 :: "string \<Rightarrow> nat \<times> string" where
  "strtoul_base0 s =
     (if (take 2 s = ''0x'' \<or> take 2 s = ''0X'') \<and> 2 < length s \<and> digit_value (s ! 2) < 16
      then strtoul_digits 16 (drop 2 s)
      else if take 1 s = ''0'' then strtoul_digits 8 s
      else strtoul_digits 10 s)"

definition isspace :: "char \<Rightarrow> bool" where
  "isspace c = (c \<in> set [SPC, TAB, NL, CHR 0x0B, CHR 0x0C, CHR 0x0D])"

text \<open>The loop of \<open>inet_aton\<close>: the bytes stored so far and the string that is left; it
  returns the bytes, the last number and what follows it.\<close>

function inet_aton_loop :: "nat list \<Rightarrow> string \<Rightarrow> (nat list \<times> nat \<times> string) option" where
  "inet_aton_loop bytes cp =
     (case cp of
        [] \<Rightarrow> None
      | c # _ \<Rightarrow>
          if \<not> ISDIGIT c then None
          else (case strtoul_base0 cp of
                  (val, rest) \<Rightarrow>
                    (case rest of
                       [] \<Rightarrow> Some (bytes, val, rest)
                     | d # cp' \<Rightarrow>
                         if d = CHR ''.''
                         then (if 2 < length bytes \<or> 0xff < val then None
                               else inet_aton_loop (bytes @ [val]) cp')
                         else Some (bytes, val, rest))))"
  by pat_completeness auto

termination
proof (relation "measure (\<lambda>(bytes, cp). length cp)")
  show "wf (measure (\<lambda>(bytes, cp). length cp))" by simp
next
  fix bytes :: "nat list" and cp :: string and c cs val rest d cp'
  assume "(val, rest) = strtoul_base0 cp" and "rest = d # cp'"
  then have r: "d # cp' = snd (strtoul_base0 cp)" by (metis snd_conv)
  have "length (snd (strtoul_base0 cp)) \<le> length cp"
    by (auto simp: strtoul_base0_def strtoul_digits_def
          intro: order_trans [OF length_dropWhile_le])
  with r have "length cp' < length cp" by (metis length_Cons less_eq_Suc_le)
  then show "((bytes @ [val], cp'), (bytes, cp)) \<in> measure (\<lambda>(bytes, cp). length cp)"
    by simp
qed

declare inet_aton_loop.simps [simp del]

definition inet_aton :: "string \<Rightarrow> 32 word option" where
  "inet_aton cp =
     (case inet_aton_loop [] cp of
        None \<Rightarrow> None
      | Some (bytes, val, rest) \<Rightarrow>
          if (case rest of [] \<Rightarrow> False | c # _ \<Rightarrow> \<not> isspace c) then None
          else if 256 ^ (4 - length bytes) \<le> val then None
          else Some (word_of_nat
                 (foldl (\<lambda>n b. 256 * n + b) 0 bytes * 256 ^ (4 - length bytes) + val)))"

definition inet_addr_libc :: "string \<Rightarrow> 32 word" where
  "inet_addr_libc s = (case inet_aton s of Some a \<Rightarrow> a | None \<Rightarrow> INADDR_NONE)"


subsection \<open>An example name service\<close>

text \<open>The name service of the spec's scenario 7 with one more exchanger in front:
  \<open>t.org\<close> has the exchangers \<open>backup.t.org\<close> (20), \<open>mx.example.com\<close> (10, this host) and
  \<open>first.t.org\<close> (5, two addresses), listed in that order; \<open>u.org\<close> has this host only.\<close>

definition a_record :: "string \<Rightarrow> 32 word \<Rightarrow> dns_rr" where
  "a_record h a = \<lparr>name = h, rtype = T_A, rclass = 1, ttl = 3600, pref = 0, data = in_addr_data a\<rparr>"

definition mx_record :: "string \<Rightarrow> 16 word \<Rightarrow> string \<Rightarrow> dns_rr" where
  "mx_record d p h = \<lparr>name = d, rtype = T_MX, rclass = 1, ttl = 3600, pref = p, data = h\<rparr>"

definition example_dns :: "string \<Rightarrow> nat \<Rightarrow> dns_status \<times> dns_rr list \<times> string option" where
  "example_dns nm ty =
     (if ty = T_MX \<and> nm = ''t.org'' then
        (DNS_OK, [mx_record ''t.org'' 20 ''backup.t.org'', mx_record ''t.org'' 10 ''mx.example.com'',
                  mx_record ''t.org'' 5 ''first.t.org''], None)
      else if ty = T_MX \<and> nm = ''u.org'' then
        (DNS_OK, [mx_record ''u.org'' 10 ''mx.example.com''], None)
      else if ty = T_A \<and> nm = ''mx.example.com'' then
        (DNS_OK, [a_record ''mx.example.com'' 0x0A000001], None)
      else if ty = T_A \<and> nm = ''backup.t.org'' then
        (DNS_OK, [a_record ''backup.t.org'' 0x0A000002], None)
      else if ty = T_A \<and> nm = ''first.t.org'' then
        (DNS_OK, [a_record ''first.t.org'' 0x0A000003, a_record ''first.t.org'' 0x0A000004], None)
      else (DNS_NOTFOUND, [], Some ''Host not found''))"

definition example_env :: smtp_env where
  "example_env = \<lparr>dns_lookup = example_dns, own_inet_addr_list = [0x7F000001, 0x0A000001],
     inet_addr = inet_addr_libc\<rparr>"

definition example_state :: smtp_state where
  "example_state = \<lparr>smtp_errno = SMTP_NONE, why = []\<rparr>"

text \<open>The same name service seen from a host that is none of the exchangers.\<close>

definition example_env_far :: smtp_env where
  "example_env_far = example_env\<lparr>own_inet_addr_list := [0x7F000001]\<rparr>"


section \<open>Properties of readline\<close>

lemma readline_loop_other:
  "c \<noteq> NL \<Longrightarrow> readline_loop buf (c # fp) ln = readline_loop (buf @ [c]) fp ln"
  by simp

lemma readline_loop_last_nl:
  "readline_loop buf [NL] ln = (buf, Some NL, [], map_option (\<lambda>n. n + 1) ln)"
  by simp

lemma readline_loop_cont:
  "nxt = SPC \<or> nxt = TAB \<Longrightarrow>
   readline_loop buf (NL # nxt # fp) ln = readline_loop (buf @ [nxt]) fp (map_option (\<lambda>n. n + 1) ln)"
  by simp

lemma readline_loop_break:
  "nxt \<noteq> SPC \<Longrightarrow> nxt \<noteq> TAB \<Longrightarrow>
   readline_loop buf (NL # nxt # fp) ln = (buf, Some NL, nxt # fp, map_option (\<lambda>n. n + 1) ln)"
  by simp

lemmas readline_loop_eqs =
  readline_loop_other readline_loop_last_nl readline_loop_cont
  readline_loop_break

lemma readline_loop_cases [case_names eof other last_nl cont brk]:
  fixes P :: "string \<Rightarrow> string \<Rightarrow> 32 word option \<Rightarrow> bool"
  assumes "\<And>buf ln. P buf [] ln"
    and "\<And>buf c fp ln. c \<noteq> NL \<Longrightarrow> P (buf @ [c]) fp ln \<Longrightarrow> P buf (c # fp) ln"
    and "\<And>buf ln. P buf [NL] ln"
    and "\<And>buf nxt fp ln. nxt = SPC \<or> nxt = TAB \<Longrightarrow>
           P (buf @ [nxt]) fp (map_option (\<lambda>n. n + 1) ln) \<Longrightarrow> P buf (NL # nxt # fp) ln"
    and "\<And>buf nxt fp ln. nxt \<noteq> SPC \<Longrightarrow> nxt \<noteq> TAB \<Longrightarrow> P buf (NL # nxt # fp) ln"
  shows "P buf fp ln"
proof (induction buf fp ln rule: readline_loop.induct)
  case (1 buf lineno)
  show ?case by (rule assms(1))
next
  case (2 buf c fp lineno)
  show ?case
  proof (cases "c = NL")
    case False
    with 2 show ?thesis by (intro assms(2)) simp_all
  next
    case True
    note nl = this
    show ?thesis
    proof (cases fp)
      case Nil
      with nl show ?thesis by (simp add: assms(3))
    next
      case (Cons nxt fp2)
      show ?thesis
      proof (cases "nxt = SPC \<or> nxt = TAB")
        case True
        have "P (buf @ [nxt]) fp2 (map_option (\<lambda>n. n + 1) lineno)"
          using 2(1) [OF nl Cons True] .
        with True have "P buf (NL # nxt # fp2) lineno" by (rule assms(4))
        with nl Cons show ?thesis by simp
      next
        case False
        then have "P buf (NL # nxt # fp2) lineno" by (intro assms(5)) simp_all
        with nl Cons show ?thesis by simp
      qed
    qed
  qed
qed


declare readline_loop.simps(2) [simp del]

lemma readline_loop_buf_prefix:
  "readline_loop buf fp ln = (b, ch, fp', ln') \<Longrightarrow> prefix buf b"
  by (induction buf fp ln rule: readline_loop_cases)
     (auto simp: readline_loop_eqs dest: append_prefixD)

lemma readline_loop_eof:
  "readline_loop buf fp ln = (b, None, fp', ln') \<Longrightarrow> fp \<noteq> [] \<Longrightarrow> b \<noteq> []"
  by (induction buf fp ln rule: readline_loop_cases)
     (auto simp: readline_loop_eqs dest!: readline_loop_buf_prefix)

lemma readline_loop_ch:
  "readline_loop buf fp ln = (b, ch, fp', ln') \<Longrightarrow> ch = None \<or> ch = Some NL"
  by (induction buf fp ln rule: readline_loop_cases) (auto simp: readline_loop_eqs)

lemma readline_loop_no_newline:
  "readline_loop buf fp ln = (b, ch, fp', ln') \<Longrightarrow> NL \<notin> set buf \<Longrightarrow> NL \<notin> set b"
  by (induction buf fp ln rule: readline_loop_cases) (auto simp: readline_loop_eqs)

lemma readline_loop_plain:
  "NL \<notin> set xs \<Longrightarrow> readline_loop buf (xs @ fp) ln = readline_loop (buf @ xs) fp ln"
  by (induction xs arbitrary: buf) (auto simp: readline_loop_eqs)

lemma readline_loop_lineno:
  "readline_loop buf fp l1 = (b, ch, fp', l1') \<Longrightarrow>
   \<exists>l2'. readline_loop buf fp l2 = (b, ch, fp', l2')"
  by (induction buf fp l1 arbitrary: l2 rule: readline_loop_cases)
     (auto simp: readline_loop_eqs)

lemma readline_null_iff: "fst (readline fp ln) = None \<longleftrightarrow> fp = []"
proof (cases "readline_loop [] fp ln")
  case (fields b ch fp' ln')
  show ?thesis
  proof (cases fp)
    case Nil
    with fields show ?thesis by (simp add: readline_def)
  next
    case (Cons c cs)
    from readline_loop_ch [OF fields] have "b \<noteq> [] \<or> ch = Some NL"
      using readline_loop_eof [of "[]" fp ln b fp' ln'] fields Cons by auto
    with fields Cons show ?thesis by (auto simp: readline_def)
  qed
qed

lemma readline_no_newline: "fst (readline fp ln) = Some b \<Longrightarrow> NL \<notin> set b"
  by (cases "readline_loop [] fp ln")
     (auto simp: readline_def split: if_splits dest: readline_loop_no_newline)

lemma readline_loop_shift:
  "readline_loop buf fp ln = (b, ch, fp', ln') \<Longrightarrow>
   readline_loop buf fp (map_option (\<lambda>n. n + k) ln) = (b, ch, fp', map_option (\<lambda>n. n + k) ln')"
proof (induction buf fp ln rule: readline_loop_cases)
  case (cont buf nxt fp ln)
  have sw: "map_option (\<lambda>n. n + 1) (map_option (\<lambda>n. n + k) ln)
      = map_option (\<lambda>n. n + k) (map_option (\<lambda>n. n + 1) ln)"
    by (cases ln) simp_all
  from cont show ?case by (simp add: readline_loop_eqs sw)
qed (auto simp: readline_loop_eqs option.map_comp comp_def add.commute add.left_commute)

lemma readline_loop_consumed:
  "readline_loop buf fp ln = (b, ch, fp', ln') \<Longrightarrow>
   \<exists>consumed. fp = consumed @ fp' \<and> b = buf @ filter (\<lambda>c. c \<noteq> NL) consumed
     \<and> ln' = map_option (\<lambda>n. n + word_of_nat (length (filter (\<lambda>c. c = NL) consumed))) ln"
proof (induction buf fp ln rule: readline_loop_cases)
  case (eof buf ln)
  then have "[] = [] @ fp' \<and> b = buf @ filter (\<lambda>c. c \<noteq> NL) []
     \<and> ln' = map_option (\<lambda>n. n + word_of_nat (length (filter (\<lambda>c. c = NL) []))) ln"
    by (simp add: option.map_ident)
  then show ?case by blast
next
  case (other buf c fp ln)
  from other(3) other(1) have "readline_loop (buf @ [c]) fp ln = (b, ch, fp', ln')"
    by (simp add: readline_loop_eqs)
  from other(2) [OF this] obtain cs where cs: "fp = cs @ fp'"
      "b = (buf @ [c]) @ filter (\<lambda>c. c \<noteq> NL) cs"
      "ln' = map_option (\<lambda>n. n + word_of_nat (length (filter (\<lambda>c. c = NL) cs))) ln"
    by blast
  with other(1) have "c # fp = (c # cs) @ fp' \<and> b = buf @ filter (\<lambda>c. c \<noteq> NL) (c # cs)
     \<and> ln' = map_option (\<lambda>n. n + word_of_nat (length (filter (\<lambda>c. c = NL) (c # cs)))) ln"
    by simp
  then show ?case by blast
next
  case (last_nl buf ln)
  then have "[NL] = [NL] @ fp' \<and> b = buf @ filter (\<lambda>c. c \<noteq> NL) [NL]
     \<and> ln' = map_option (\<lambda>n. n + word_of_nat (length (filter (\<lambda>c. c = NL) [NL]))) ln"
    by (simp add: readline_loop_eqs)
  then show ?case by blast
next
  case (cont buf nxt fp ln)
  from cont(1) have nl: "nxt \<noteq> NL" by auto
  from cont(3) cont(1)
  have "readline_loop (buf @ [nxt]) fp (map_option (\<lambda>n. n + 1) ln) = (b, ch, fp', ln')"
    by (simp add: readline_loop_eqs)
  from cont(2) [OF this] obtain cs where cs: "fp = cs @ fp'"
      "b = (buf @ [nxt]) @ filter (\<lambda>c. c \<noteq> NL) cs"
      "ln' = map_option (\<lambda>n. n + word_of_nat (length (filter (\<lambda>c. c = NL) cs)))
               (map_option (\<lambda>n. n + 1) ln)"
    by blast
  from cs(3) have "ln' = map_option
      (\<lambda>n. n + word_of_nat (length (filter (\<lambda>c. c = NL) (NL # nxt # cs)))) ln"
    using nl by (cases ln) (simp_all add: add.commute add.left_commute)
  with cs(1,2) nl
  have "NL # nxt # fp = (NL # nxt # cs) @ fp' \<and> b = buf @ filter (\<lambda>c. c \<noteq> NL) (NL # nxt # cs)
     \<and> ln' = map_option (\<lambda>n. n + word_of_nat (length (filter (\<lambda>c. c = NL) (NL # nxt # cs)))) ln"
    by simp
  then show ?case by blast
next
  case (brk buf nxt fp ln)
  then have "NL # nxt # fp = [NL] @ fp' \<and> b = buf @ filter (\<lambda>c. c \<noteq> NL) [NL]
     \<and> ln' = map_option (\<lambda>n. n + word_of_nat (length (filter (\<lambda>c. c = NL) [NL]))) ln"
    by (simp add: readline_loop_eqs)
  then show ?case by blast
qed

lemma readline_consumed:
  assumes "readline fp ln = (Some b, rest, ln')"
  shows "\<exists>consumed. fp = consumed @ rest \<and> b = filter (\<lambda>c. c \<noteq> NL) consumed
     \<and> ln' = map_option (\<lambda>n. n + word_of_nat (length (filter (\<lambda>c. c = NL) consumed))) ln"
proof -
  obtain b0 ch fp0 ln0 where r: "readline_loop [] fp ln = (b0, ch, fp0, ln0)"
    by (cases "readline_loop [] fp ln")
  with assms have "b0 = b" "fp0 = rest" "ln0 = ln'"
    by (auto simp: readline_def split: if_splits)
  with readline_loop_consumed [OF r] show ?thesis by simp
qed

lemma readline_plain:
  assumes "NL \<notin> set xs"
  shows "readline xs ln = (if xs = [] then None else Some xs, [], ln)"
proof -
  have "readline_loop [] (xs @ []) ln = readline_loop ([] @ xs) [] ln"
    using assms by (rule readline_loop_plain)
  then show ?thesis by (simp add: readline_def)
qed

lemma readline_line:
  assumes "NL \<notin> set xs" and "case rest of [] \<Rightarrow> True | c # _ \<Rightarrow> c \<noteq> SPC \<and> c \<noteq> TAB"
  shows "readline (xs @ NL # rest) ln = (Some xs, rest, map_option (\<lambda>n. n + 1) ln)"
proof -
  have "readline_loop [] (xs @ NL # rest) ln = readline_loop ([] @ xs) (NL # rest) ln"
    using assms(1) by (rule readline_loop_plain)
  also have "\<dots> = (xs, Some NL, rest, map_option (\<lambda>n. n + 1) ln)"
    using assms(2) by (cases rest) (auto simp: readline_loop_eqs)
  finally show ?thesis by (simp add: readline_def)
qed

lemma readline_continuation:
  assumes "NL \<notin> set xs" and "c = SPC \<or> c = TAB"
  shows "fst (readline (xs @ NL # c # ys) ln) = fst (readline (xs @ c # ys) ln)
       \<and> fst (snd (readline (xs @ NL # c # ys) ln)) = fst (snd (readline (xs @ c # ys) ln))
       \<and> snd (snd (readline (xs @ NL # c # ys) ln))
           = map_option (\<lambda>n. n + 1) (snd (snd (readline (xs @ c # ys) ln)))
       \<and> (\<exists>b. fst (readline (xs @ NL # c # ys) ln) = Some b \<and> prefix (xs @ [c]) b)"
proof -
  have nl: "c \<noteq> NL" using assms(2) by auto
  obtain b ch fp' ln' where r: "readline_loop (xs @ [c]) ys ln = (b, ch, fp', ln')"
    by (cases "readline_loop (xs @ [c]) ys ln")
  from readline_loop_shift [OF r, of 1]
  have r2: "readline_loop (xs @ [c]) ys (map_option (\<lambda>n. n + 1) ln)
      = (b, ch, fp', map_option (\<lambda>n. n + 1) ln')" .
  have a: "readline_loop [] (xs @ NL # c # ys) ln = (b, ch, fp', map_option (\<lambda>n. n + 1) ln')"
    using assms r2 by (simp add: readline_loop_plain readline_loop_eqs)
  have b: "readline_loop [] (xs @ c # ys) ln = (b, ch, fp', ln')"
    using assms nl r readline_loop_plain [of "xs @ [c]" "[]" ys ln] by simp
  have p: "prefix (xs @ [c]) b" using r by (rule readline_loop_buf_prefix)
  then have "b \<noteq> []" by auto
  with a b p show ?thesis by (simp add: readline_def)
qed

lemma readline_bare_newline:
  "(case rest of [] \<Rightarrow> True | c # _ \<Rightarrow> c \<noteq> SPC \<and> c \<noteq> TAB) \<Longrightarrow>
   readline (NL # rest) ln = (Some [], rest, map_option (\<lambda>n. n + 1) ln)"
  by (cases rest) (auto simp: readline_def readline_loop_eqs)

text \<open>
  Claim C10. \<open>readline\<close> returns the null pointer exactly when the stream is at end of
  file before any byte is read by the call. A line that is only a newline gives a
  non-null, empty buffer. A returned buffer holds no newline byte: it is the bytes that
  the call has taken from the stream, in their order, without the newlines among them.
  The call takes the bytes up to the end of the stream or up to and with the first
  newline that no space or tab follows. So the newline before a continuation line (one
  that starts with a space or a tab) is dropped and the space or tab is kept: the buffer
  starts with the bytes before that newline and the space or tab, and the call reads the
  input as if the newline were not there, counting one line more. The line counter, a C
  \<open>int\<close>, goes up by one for each newline taken, wrapping from \<open>INT_MAX\<close> to \<open>INT_MIN\<close>.
\<close>

theorem readline_null_iff_eof:
  "(fst (readline fp ln) = None \<longleftrightarrow> fp = [])
   \<and> ((case rest of [] \<Rightarrow> True | c # _ \<Rightarrow> c \<noteq> SPC \<and> c \<noteq> TAB) \<longrightarrow>
        readline (NL # rest) ln = (Some [], rest, map_option (\<lambda>n. n + 1) ln))
   \<and> (\<forall>b. fst (readline fp ln) = Some b \<longrightarrow> NL \<notin> set b)
   \<and> (NL \<notin> set xs \<and> (c = SPC \<or> c = TAB) \<longrightarrow>
        fst (readline (xs @ NL # c # ys) ln) = fst (readline (xs @ c # ys) ln)
        \<and> fst (snd (readline (xs @ NL # c # ys) ln)) = fst (snd (readline (xs @ c # ys) ln))
        \<and> snd (snd (readline (xs @ NL # c # ys) ln))
            = map_option (\<lambda>n. n + 1) (snd (snd (readline (xs @ c # ys) ln)))
        \<and> (\<exists>b. fst (readline (xs @ NL # c # ys) ln) = Some b \<and> prefix (xs @ [c]) b))
   \<and> (NL \<notin> set xs \<longrightarrow> readline xs ln = (if xs = [] then None else Some xs, [], ln))
   \<and> (NL \<notin> set xs \<and> (case rest of [] \<Rightarrow> True | c # _ \<Rightarrow> c \<noteq> SPC \<and> c \<noteq> TAB) \<longrightarrow>
        readline (xs @ NL # rest) ln = (Some xs, rest, map_option (\<lambda>n. n + 1) ln))
   \<and> (\<forall>b fp' ln'. readline fp ln = (Some b, fp', ln') \<longrightarrow>
        (\<exists>consumed. fp = consumed @ fp' \<and> b = filter (\<lambda>c. c \<noteq> NL) consumed
           \<and> ln' = map_option
                 (\<lambda>n. n + word_of_nat (length (filter (\<lambda>c. c = NL) consumed))) ln))"
proof -
  have 1: "fst (readline fp ln) = None \<longleftrightarrow> fp = []" by (rule readline_null_iff)
  have 2: "(case rest of [] \<Rightarrow> True | c # _ \<Rightarrow> c \<noteq> SPC \<and> c \<noteq> TAB) \<longrightarrow>
        readline (NL # rest) ln = (Some [], rest, map_option (\<lambda>n. n + 1) ln)"
    using readline_bare_newline [of rest ln] by blast
  have 3: "\<forall>b. fst (readline fp ln) = Some b \<longrightarrow> NL \<notin> set b"
    using readline_no_newline [of fp ln] by blast
  have 4: "NL \<notin> set xs \<and> (c = SPC \<or> c = TAB) \<longrightarrow>
        fst (readline (xs @ NL # c # ys) ln) = fst (readline (xs @ c # ys) ln)
        \<and> fst (snd (readline (xs @ NL # c # ys) ln)) = fst (snd (readline (xs @ c # ys) ln))
        \<and> snd (snd (readline (xs @ NL # c # ys) ln))
            = map_option (\<lambda>n. n + 1) (snd (snd (readline (xs @ c # ys) ln)))
        \<and> (\<exists>b. fst (readline (xs @ NL # c # ys) ln) = Some b \<and> prefix (xs @ [c]) b)"
    using readline_continuation [of xs c ys ln] by blast
  have 5: "NL \<notin> set xs \<longrightarrow> readline xs ln = (if xs = [] then None else Some xs, [], ln)"
    using readline_plain [of xs ln] by blast
  have 6: "NL \<notin> set xs \<and> (case rest of [] \<Rightarrow> True | c # _ \<Rightarrow> c \<noteq> SPC \<and> c \<noteq> TAB) \<longrightarrow>
        readline (xs @ NL # rest) ln = (Some xs, rest, map_option (\<lambda>n. n + 1) ln)"
    using readline_line [of xs rest ln] by blast
  have 7: "\<forall>b fp' ln'. readline fp ln = (Some b, fp', ln') \<longrightarrow>
        (\<exists>consumed. fp = consumed @ fp' \<and> b = filter (\<lambda>c. c \<noteq> NL) consumed
           \<and> ln' = map_option
                 (\<lambda>n. n + word_of_nat (length (filter (\<lambda>c. c = NL) consumed))) ln)"
    using readline_consumed [of fp ln] by blast
  from 1 2 3 4 5 6 7 show ?thesis by blast
qed

theorem readline_null_iff_eof_witness:
  "fst (readline [CHR ''a'', NL, TAB, CHR ''b'', NL, CHR ''c''] (Some 0)) \<noteq> None
   \<and> readline [NL, CHR ''x''] (Some 0x7FFFFFFF) = (Some [], [CHR ''x''], Some 0x80000000)
   \<and> sint (0x80000000 :: 32 word) = - 2147483648
   \<and> NL \<notin> set [CHR ''a'', TAB, CHR ''b'']
   \<and> fst (readline ([CHR ''a''] @ NL # TAB # [CHR ''b'', NL, CHR ''c'']) (Some 0))
       = fst (readline ([CHR ''a''] @ TAB # [CHR ''b'', NL, CHR ''c'']) (Some 0))
   \<and> snd (snd (readline ([CHR ''a''] @ NL # TAB # [CHR ''b'', NL, CHR ''c'']) (Some 0)))
       = map_option (\<lambda>n. n + 1)
           (snd (snd (readline ([CHR ''a''] @ TAB # [CHR ''b'', NL, CHR ''c'']) (Some 0))))
   \<and> (\<exists>b. fst (readline ([CHR ''a''] @ NL # TAB # [CHR ''b'', NL, CHR ''c'']) (Some 0)) = Some b
          \<and> prefix ([CHR ''a''] @ [TAB]) b)
   \<and> readline [CHR ''a''] (Some 0) = (Some [CHR ''a''], [], Some 0)
   \<and> readline ([CHR ''a''] @ NL # [CHR ''x'']) (Some 0) = (Some [CHR ''a''], [CHR ''x''], Some 1)
   \<and> readline [CHR ''a'', NL, TAB, CHR ''b'', NL, CHR ''c''] (Some 0)
       = (Some [CHR ''a'', TAB, CHR ''b''], [CHR ''c''], Some 2)
   \<and> (\<exists>consumed. [CHR ''a'', NL, TAB, CHR ''b'', NL, CHR ''c''] = consumed @ [CHR ''c'']
          \<and> [CHR ''a'', TAB, CHR ''b''] = filter (\<lambda>c. c \<noteq> NL) consumed
          \<and> Some (2 :: 32 word) = map_option
               (\<lambda>n. n + word_of_nat (length (filter (\<lambda>c. c = NL) consumed))) (Some 0))"
proof -
  let ?fp = "[CHR ''a'', NL, TAB, CHR ''b'', NL, CHR ''c'']"
  note t1 = readline_null_iff_eof [where fp = ?fp and ln = "Some 0" and rest = "[CHR ''x'']"
      and xs = "[CHR ''a'']" and c = TAB and ys = "[CHR ''b'', NL, CHR ''c'']"]
  note t2 = readline_null_iff_eof [where fp = "[]" and ln = "Some 0x7FFFFFFF"
      and rest = "[CHR ''x'']" and xs = "[]" and c = TAB and ys = "[]"]
  have run: "readline ?fp (Some 0) = (Some [CHR ''a'', TAB, CHR ''b''], [CHR ''c''], Some 2)"
    by (simp add: readline_def readline_loop_eqs)
  have rest: "case [CHR ''x''] of [] \<Rightarrow> True | c # _ \<Rightarrow> c \<noteq> SPC \<and> c \<noteq> TAB" by simp
  have xs: "NL \<notin> set [CHR ''a'']" by simp
  have ne: "?fp \<noteq> []" by simp
  from t1 [THEN conjunct1] ne have 1: "fst (readline ?fp (Some 0)) \<noteq> None" by blast
  from t2 [THEN conjunct2, THEN conjunct1] rest
  have "readline (NL # [CHR ''x'']) (Some 0x7FFFFFFF)
      = (Some [], [CHR ''x''], map_option (\<lambda>n. n + 1) (Some (0x7FFFFFFF :: 32 word)))"
    by (rule mp)
  then have 2: "readline [NL, CHR ''x''] (Some 0x7FFFFFFF)
      = (Some [], [CHR ''x''], Some 0x80000000)"
    by simp
  have 3: "sint (0x80000000 :: 32 word) = - 2147483648" by simp
  from run have f: "fst (readline ?fp (Some 0)) = Some [CHR ''a'', TAB, CHR ''b'']" by simp
  from t1 [THEN conjunct2, THEN conjunct2, THEN conjunct1] f
  have 4: "NL \<notin> set [CHR ''a'', TAB, CHR ''b'']" by blast
  from t1 [THEN conjunct2, THEN conjunct2, THEN conjunct2, THEN conjunct1] xs
  have 5: "fst (readline ([CHR ''a''] @ NL # TAB # [CHR ''b'', NL, CHR ''c'']) (Some 0))
       = fst (readline ([CHR ''a''] @ TAB # [CHR ''b'', NL, CHR ''c'']) (Some 0))
     \<and> snd (snd (readline ([CHR ''a''] @ NL # TAB # [CHR ''b'', NL, CHR ''c'']) (Some 0)))
       = map_option (\<lambda>n. n + 1)
           (snd (snd (readline ([CHR ''a''] @ TAB # [CHR ''b'', NL, CHR ''c'']) (Some 0))))
     \<and> (\<exists>b. fst (readline ([CHR ''a''] @ NL # TAB # [CHR ''b'', NL, CHR ''c'']) (Some 0)) = Some b
          \<and> prefix ([CHR ''a''] @ [TAB]) b)"
    by blast
  from t1 [THEN conjunct2, THEN conjunct2, THEN conjunct2, THEN conjunct2, THEN conjunct1] xs
  have "readline [CHR ''a''] (Some 0)
      = (if [CHR ''a''] = [] then None else Some [CHR ''a''], [], Some 0)"
    by (rule mp)
  then have 6: "readline [CHR ''a''] (Some 0) = (Some [CHR ''a''], [], Some 0)"
    by simp
  from xs rest
  have "NL \<notin> set [CHR ''a'']
      \<and> (case [CHR ''x''] of [] \<Rightarrow> True | c # _ \<Rightarrow> c \<noteq> SPC \<and> c \<noteq> TAB)"
    by (rule conjI)
  with t1 [THEN conjunct2, THEN conjunct2, THEN conjunct2, THEN conjunct2, THEN conjunct2,
      THEN conjunct1]
  have "readline ([CHR ''a''] @ NL # [CHR ''x'']) (Some 0)
      = (Some [CHR ''a''], [CHR ''x''], map_option (\<lambda>n. n + 1) (Some (0 :: 32 word)))"
    by (rule mp)
  then have 7: "readline ([CHR ''a''] @ NL # [CHR ''x'']) (Some 0)
      = (Some [CHR ''a''], [CHR ''x''], Some 1)"
    by simp
  from t1 [THEN conjunct2, THEN conjunct2, THEN conjunct2, THEN conjunct2, THEN conjunct2,
      THEN conjunct2] run
  have 8: "\<exists>consumed. ?fp = consumed @ [CHR ''c'']
          \<and> [CHR ''a'', TAB, CHR ''b''] = filter (\<lambda>c. c \<noteq> NL) consumed
          \<and> Some (2 :: 32 word) = map_option
               (\<lambda>n. n + word_of_nat (length (filter (\<lambda>c. c = NL) consumed))) (Some 0)"
    by blast
  from 1 2 3 4 5 6 7 run 8 show ?thesis by blast
qed
section \<open>Properties of the resolver\<close>

subsection \<open>Flag words\<close>

lemmas resolve_flag_defs =
  RESOLVE_FLAG_ROUTED_def RESOLVE_FLAG_ERROR_def RESOLVE_FLAG_FAIL_def
  RESOLVE_CLASS_LOCAL_def RESOLVE_CLASS_ALIAS_def RESOLVE_CLASS_VIRTUAL_def
  RESOLVE_CLASS_RELAY_def RESOLVE_CLASS_DEFAULT_def

lemma class_bits_or_fail [simp]:
  "resolve_class_bits (f OR RESOLVE_FLAG_FAIL) = resolve_class_bits f"
  by (simp add: resolve_class_bits_def resolve_flag_defs bit.conj_disj_distrib2)

lemma class_bits_or_error [simp]:
  "resolve_class_bits (f OR RESOLVE_FLAG_ERROR) = resolve_class_bits f"
  by (simp add: resolve_class_bits_def resolve_flag_defs bit.conj_disj_distrib2)

lemma class_bits_routed [simp]: "resolve_class_bits RESOLVE_FLAG_ROUTED = []"
  by (simp add: resolve_class_bits_def resolve_flag_defs)

lemma class_bits_zero [simp]: "resolve_class_bits 0 = []"
  by (simp add: resolve_class_bits_def)

lemma class_bits_or_class:
  assumes "resolve_class_bits f = []"
  shows "resolve_class_bits (f OR RESOLVE_CLASS_LOCAL) = [RESOLVE_CLASS_LOCAL]"
    and "resolve_class_bits (f OR RESOLVE_CLASS_ALIAS) = [RESOLVE_CLASS_ALIAS]"
    and "resolve_class_bits (f OR RESOLVE_CLASS_VIRTUAL) = [RESOLVE_CLASS_VIRTUAL]"
    and "resolve_class_bits (f OR RESOLVE_CLASS_RELAY) = [RESOLVE_CLASS_RELAY]"
    and "resolve_class_bits (f OR RESOLVE_CLASS_DEFAULT) = [RESOLVE_CLASS_DEFAULT]"
proof -
  from assms have z: "f AND RESOLVE_CLASS_LOCAL = 0" "f AND RESOLVE_CLASS_ALIAS = 0"
    "f AND RESOLVE_CLASS_VIRTUAL = 0" "f AND RESOLVE_CLASS_RELAY = 0"
    "f AND RESOLVE_CLASS_DEFAULT = 0"
    unfolding resolve_class_bits_def filter_empty_conv by simp_all
  show "resolve_class_bits (f OR RESOLVE_CLASS_LOCAL) = [RESOLVE_CLASS_LOCAL]"
    using z by (simp add: resolve_class_bits_def bit.conj_disj_distrib2) (simp add: resolve_flag_defs)
  show "resolve_class_bits (f OR RESOLVE_CLASS_ALIAS) = [RESOLVE_CLASS_ALIAS]"
    using z by (simp add: resolve_class_bits_def bit.conj_disj_distrib2) (simp add: resolve_flag_defs)
  show "resolve_class_bits (f OR RESOLVE_CLASS_VIRTUAL) = [RESOLVE_CLASS_VIRTUAL]"
    using z by (simp add: resolve_class_bits_def bit.conj_disj_distrib2) (simp add: resolve_flag_defs)
  show "resolve_class_bits (f OR RESOLVE_CLASS_RELAY) = [RESOLVE_CLASS_RELAY]"
    using z by (simp add: resolve_class_bits_def bit.conj_disj_distrib2) (simp add: resolve_flag_defs)
  show "resolve_class_bits (f OR RESOLVE_CLASS_DEFAULT) = [RESOLVE_CLASS_DEFAULT]"
    using z by (simp add: resolve_class_bits_def bit.conj_disj_distrib2) (simp add: resolve_flag_defs)
qed

lemma fail_nonzero [simp]: "RESOLVE_FLAG_FAIL \<noteq> 0"
  by (simp add: resolve_flag_defs)

lemma fail_or_fail [simp]: "(f OR RESOLVE_FLAG_FAIL) AND RESOLVE_FLAG_FAIL \<noteq> 0"
  by (simp add: bit.conj_disj_distrib2 resolve_flag_defs)

lemma fail_or_other [simp]:
  "(f OR RESOLVE_FLAG_ERROR) AND RESOLVE_FLAG_FAIL = f AND RESOLVE_FLAG_FAIL"
  "(f OR RESOLVE_CLASS_LOCAL) AND RESOLVE_FLAG_FAIL = f AND RESOLVE_FLAG_FAIL"
  "(f OR RESOLVE_CLASS_ALIAS) AND RESOLVE_FLAG_FAIL = f AND RESOLVE_FLAG_FAIL"
  "(f OR RESOLVE_CLASS_VIRTUAL) AND RESOLVE_FLAG_FAIL = f AND RESOLVE_FLAG_FAIL"
  "(f OR RESOLVE_CLASS_RELAY) AND RESOLVE_FLAG_FAIL = f AND RESOLVE_FLAG_FAIL"
  "(f OR RESOLVE_CLASS_DEFAULT) AND RESOLVE_FLAG_FAIL = f AND RESOLVE_FLAG_FAIL"
  "RESOLVE_FLAG_ROUTED AND RESOLVE_FLAG_FAIL = 0"
  by (simp_all add: bit.conj_disj_distrib2 resolve_flag_defs)

subsection \<open>What each phase does to the flags\<close>

lemma list_match_vars:
  "list_match l nm st = (hit, st') \<Longrightarrow> st' = st\<lparr>dict_errno := dict_errno st'\<rparr>"
  by (auto simp: list_match_def split: option.splits prod.splits)

lemma list_match_flags [simp]: "flags (snd (list_match l nm st)) = flags st"
  by (simp add: list_match_def split: option.splits prod.splits)

lemma list_match_channel [simp]: "channel (snd (list_match l nm st)) = channel st"
  by (simp add: list_match_def split: option.splits prod.splits)

lemma list_match_nexthop [simp]: "nexthop (snd (list_match l nm st)) = nexthop st"
  by (simp add: list_match_def split: option.splits prod.splits)

lemma list_match_nextrcpt [simp]: "nextrcpt (snd (list_match l nm st)) = nextrcpt st"
  by (simp add: list_match_def split: option.splits prod.splits)

lemma list_match_blame [simp]: "blame (snd (list_match l nm st)) = blame st"
  by (simp add: list_match_def split: option.splits prod.splits)

lemma msg_warn_fields [simp]:
  "flags (msg_warn t st) = flags st" "channel (msg_warn t st) = channel st"
  "nexthop (msg_warn t st) = nexthop st" "nextrcpt (msg_warn t st) = nextrcpt st"
  "blame (msg_warn t st) = blame st" "dict_errno (msg_warn t st) = dict_errno st"
  by (simp_all add: msg_warn_def)

lemma resolve_relayhost_fields [simp]:
  "flags (resolve_relayhost ctx st) = flags st" "channel (resolve_relayhost ctx st) = channel st"
  "blame (resolve_relayhost ctx st) = blame st" "nextrcpt (resolve_relayhost ctx st) = nextrcpt st"
  by (simp_all add: resolve_relayhost_def)

lemma resolve_relay_default_flags:
  "flags (resolve_relay_default ctx st) \<in>
     {flags st OR RESOLVE_CLASS_RELAY, flags st OR RESOLVE_CLASS_DEFAULT,
      flags st OR RESOLVE_FLAG_FAIL}"
proof -
  obtain hit st1 where m: "list_match (relay_domains ctx) (nexthop st) st = (hit, st1)"
    by (cases "list_match (relay_domains ctx) (nexthop st) st")
  from list_match_flags [of "relay_domains ctx" "nexthop st" st] m
  have "flags st1 = flags st" by simp
  with m show ?thesis by (simp add: resolve_relay_default_def)
qed

lemma resolve_cascade_flags:
  "flags (resolve_cascade ctx st) \<in>
     {flags st OR RESOLVE_CLASS_ALIAS, flags st OR RESOLVE_CLASS_VIRTUAL,
      flags st OR RESOLVE_CLASS_RELAY, flags st OR RESOLVE_CLASS_DEFAULT,
      flags st OR RESOLVE_FLAG_FAIL}"
proof -
  obtain va st1 where m1: "list_match (virt_alias_doms ctx) (nexthop st) st = (va, st1)"
    by (cases "list_match (virt_alias_doms ctx) (nexthop st) st")
  obtain mailbox st2 where m2: "list_match (virt_mailbox_doms ctx) (nexthop st1) st1 = (mailbox, st2)"
    by (cases "list_match (virt_mailbox_doms ctx) (nexthop st1) st1")
  from list_match_flags [of "virt_alias_doms ctx" "nexthop st" st] m1
  have f1: "flags st1 = flags st" by simp
  from list_match_flags [of "virt_mailbox_doms ctx" "nexthop st1" st1] m2 f1
  have f2: "flags st2 = flags st" by simp
  from resolve_relay_default_flags [of ctx st2] f2
  have rd: "flags (resolve_relay_default ctx st2) \<in>
     {flags st OR RESOLVE_CLASS_RELAY, flags st OR RESOLVE_CLASS_DEFAULT,
      flags st OR RESOLVE_FLAG_FAIL}" by simp
  show ?thesis
    using m1 m2 f1 f2 rd by (auto simp: resolve_cascade_def)
qed

lemma resolve_channel_split_fields [simp]:
  "flags (resolve_channel_split st) = flags st"
  "nextrcpt (resolve_channel_split st) = nextrcpt st"
  "blame (resolve_channel_split st) = blame st"
  by (simp_all add: resolve_channel_split_def split: option.splits prod.splits)

lemma resolve_nexthop_domain_flags:
  "flags (resolve_nexthop_domain ctx nxt st) \<in> {flags st, flags st OR RESOLVE_FLAG_ERROR}"
  by (simp add: resolve_nexthop_domain_def Let_def)

lemma resolve_local_warn_fields [simp]:
  "flags (resolve_local_warn ctx st) = flags st"
proof (cases "strrchr_next (nextrcpt st) CHR ''@''")
  case None
  then show ?thesis by (simp add: resolve_local_warn_def)
next
  case (Some rd)
  obtain va st1 where m1: "list_match (virt_alias_doms ctx) rd st = (va, st1)"
    by (cases "list_match (virt_alias_doms ctx) rd st")
  let ?st1 = "if va then msg_warn (''do not list domain '' @ rd @ '' in BOTH ''
                               @ VAR_MYDEST @ '' and '' @ VAR_VIRT_ALIAS_DOMS) st1 else st1"
  obtain mailbox st2 where m2: "list_match (virt_mailbox_doms ctx) rd ?st1 = (mailbox, st2)"
    by (cases "list_match (virt_mailbox_doms ctx) rd ?st1")
  from list_match_flags [of "virt_alias_doms ctx" rd st] m1
  have f1: "flags st1 = flags st" by simp
  from list_match_flags [of "virt_mailbox_doms ctx" rd ?st1] m2 f1
  have f2: "flags st2 = flags st" by (simp split: if_splits)
  show ?thesis
    using Some m1 m2 f2 by (simp add: resolve_local_warn_def)
qed

lemma resolve_class_local_flags:
  "flags (resolve_class_local ctx st) = flags st OR RESOLVE_CLASS_LOCAL"
  by (simp add: resolve_class_local_def Let_def split: option.splits prod.splits)

lemma resolve_routed_bits: "resolve_class_bits (resolve_routed s) = []"
  by (simp add: resolve_routed_def split: option.splits prod.splits)

lemma resolve_routed_fail: "resolve_routed s AND RESOLVE_FLAG_FAIL = 0"
  by (simp add: resolve_routed_def split: option.splits prod.splits)

lemma resolve_classify_flags:
  "flags (resolve_classify ctx s c n) AND RESOLVE_FLAG_FAIL \<noteq> 0
   \<or> length (resolve_class_bits (flags (resolve_classify ctx s c n))) = 1"
proof (cases "domain s")
  case None
  then show ?thesis
    by (simp add: resolve_classify_def Let_def resolve_class_local_flags
        class_bits_or_class resolve_routed_bits)
next
  case (Some d)
  obtain prev nxt where d: "d = (prev, nxt)" by (cases d)
  let ?st = "\<lparr>channel = c, nexthop = n,
                nextrcpt = tok822_internalize ctx (resolve_rcpt_tree ctx s),
                flags = resolve_routed s, blame = None, dict_errno = 0, warnings = []\<rparr>"
  let ?st1 = "resolve_nexthop_domain ctx nxt ?st"
  have b1: "resolve_class_bits (flags ?st1) = []"
    using resolve_nexthop_domain_flags [of ctx nxt ?st] by (auto simp: resolve_routed_bits)
  have res: "flags (resolve_classify ctx s c n) = flags (resolve_cascade ctx ?st1)"
    using Some d by (simp add: resolve_classify_def resolve_class_nonlocal_def)
  from resolve_cascade_flags [of ctx ?st1]
  consider "flags (resolve_cascade ctx ?st1) = flags ?st1 OR RESOLVE_CLASS_ALIAS"
    | "flags (resolve_cascade ctx ?st1) = flags ?st1 OR RESOLVE_CLASS_VIRTUAL"
    | "flags (resolve_cascade ctx ?st1) = flags ?st1 OR RESOLVE_CLASS_RELAY"
    | "flags (resolve_cascade ctx ?st1) = flags ?st1 OR RESOLVE_CLASS_DEFAULT"
    | "flags (resolve_cascade ctx ?st1) = flags ?st1 OR RESOLVE_FLAG_FAIL"
    by blast
  then show ?thesis
  proof cases
    case 1
    then show ?thesis unfolding res by (simp add: class_bits_or_class [OF b1])
  next
    case 2
    then show ?thesis unfolding res by (simp add: class_bits_or_class [OF b1])
  next
    case 3
    then show ?thesis unfolding res by (simp add: class_bits_or_class [OF b1])
  next
    case 4
    then show ?thesis unfolding res by (simp add: class_bits_or_class [OF b1])
  next
    case 5
    then show ?thesis unfolding res by simp
  qed
qed

lemma resolve_sanity_flags:
  "resolve_sanity ctx st = Inr st' \<Longrightarrow> flags st' = flags st \<or> flags st' = flags st OR RESOLVE_FLAG_FAIL"
  by (auto simp: resolve_sanity_def split: if_splits option.splits)

lemma resolve_relocated_flags:
  "flags (resolve_relocated ctx st) = flags st
   \<or> flags (resolve_relocated ctx st) = flags st OR RESOLVE_FLAG_FAIL"
  by (auto simp: resolve_relocated_def split: option.splits prod.splits)

lemma transport_lookup_flags [simp]: "flags (snd (transport_lookup ctx st)) = flags st"
  by (auto simp: transport_lookup_def split: option.splits prod.splits)

lemma resolve_transport_flags:
  "flags (resolve_transport ctx st) = flags st
   \<or> flags (resolve_transport ctx st) = flags st OR RESOLVE_FLAG_FAIL"
proof (cases "transport_lookup ctx st")
  case (Pair found st1)
  with transport_lookup_flags [of ctx st] have "flags st1 = flags st" by simp
  with Pair show ?thesis by (simp add: resolve_transport_def)
qed

lemma class_or_fail_keep:
  "f AND RESOLVE_FLAG_FAIL \<noteq> 0 \<or> length (resolve_class_bits f) = 1 \<Longrightarrow>
   f' = f \<or> f' = f OR RESOLVE_FLAG_FAIL \<Longrightarrow>
   f' AND RESOLVE_FLAG_FAIL \<noteq> 0 \<or> length (resolve_class_bits f') = 1"
proof -
  assume q: "f AND RESOLVE_FLAG_FAIL \<noteq> 0 \<or> length (resolve_class_bits f) = 1"
    and f': "f' = f \<or> f' = f OR RESOLVE_FLAG_FAIL"
  from f' show ?thesis
  proof
    assume "f' = f"
    with q show ?thesis by simp
  next
    assume "f' = f OR RESOLVE_FLAG_FAIL"
    then show ?thesis by simp
  qed
qed

subsection \<open>The outcomes of the classification cascade\<close>

lemma resolve_relay_default_cases:
  fixes ctx st
  defines "c \<equiv> resolve_relay_default ctx st"
  obtains
    (relay) "flags c = flags st OR RESOLVE_CLASS_RELAY" "channel c = var_relay_transport ctx"
      "nexthop c = (if var_relayhost ctx \<noteq> [] then var_relayhost ctx else nexthop st)"
      "blame c = Some VAR_RELAY_TRANSPORT"
  | (default) "flags c = flags st OR RESOLVE_CLASS_DEFAULT" "channel c = var_def_transport ctx"
      "nexthop c = (if var_relayhost ctx \<noteq> [] then var_relayhost ctx else nexthop st)"
      "blame c = Some VAR_DEF_TRANSPORT"
  | (fail) "flags c = flags st OR RESOLVE_FLAG_FAIL" "channel c = channel st"
      "blame c = blame st"
proof -
  obtain hit st1 where m: "list_match (relay_domains ctx) (nexthop st) st = (hit, st1)"
    by (cases "list_match (relay_domains ctx) (nexthop st) st")
  from list_match_vars [OF m] obtain e where st1: "st1 = st\<lparr>dict_errno := e\<rparr>" by blast
  show thesis
  proof (cases hit)
    case True
    with m st1 show ?thesis
      by (intro relay) (simp_all add: c_def resolve_relay_default_def resolve_relayhost_def)
  next
    case False
    show ?thesis
    proof (cases "e = 0")
      case True
      with False m st1 show ?thesis
        by (intro default) (simp_all add: c_def resolve_relay_default_def resolve_relayhost_def)
    next
      case e: False
      with False m st1 show ?thesis
        by (intro fail) (simp_all add: c_def resolve_relay_default_def resolve_relayhost_def)
    qed
  qed
qed

lemma resolve_cascade_cases:
  fixes ctx st
  defines "c \<equiv> resolve_cascade ctx st"
  obtains
    (is_alias) "flags c = flags st OR RESOLVE_CLASS_ALIAS" "channel c = var_error_transport ctx"
      "nexthop c = ''User unknown''" "blame c = Some VAR_ERROR_TRANSPORT"
  | (is_virtual) "flags c = flags st OR RESOLVE_CLASS_VIRTUAL" "channel c = var_virt_transport ctx"
      "nexthop c = nexthop st" "blame c = Some VAR_VIRT_TRANSPORT"
  | (relay) "flags c = flags st OR RESOLVE_CLASS_RELAY" "channel c = var_relay_transport ctx"
      "nexthop c = (if var_relayhost ctx \<noteq> [] then var_relayhost ctx else nexthop st)"
      "blame c = Some VAR_RELAY_TRANSPORT"
  | (default) "flags c = flags st OR RESOLVE_CLASS_DEFAULT" "channel c = var_def_transport ctx"
      "nexthop c = (if var_relayhost ctx \<noteq> [] then var_relayhost ctx else nexthop st)"
      "blame c = Some VAR_DEF_TRANSPORT"
  | (fail) "flags c = flags st OR RESOLVE_FLAG_FAIL" "channel c = channel st"
      "blame c = blame st"
proof -
  obtain va st1 where m1: "list_match (virt_alias_doms ctx) (nexthop st) st = (va, st1)"
    by (cases "list_match (virt_alias_doms ctx) (nexthop st) st")
  from list_match_vars [OF m1] obtain e1 where st1: "st1 = st\<lparr>dict_errno := e1\<rparr>" by blast
  obtain vm st2 where m2: "list_match (virt_mailbox_doms ctx) (nexthop st1) st1 = (vm, st2)"
    by (cases "list_match (virt_mailbox_doms ctx) (nexthop st1) st1")
  define e2 where "e2 = dict_errno st2"
  from list_match_vars [OF m2] have "st2 = st1\<lparr>dict_errno := e2\<rparr>" by (simp add: e2_def)
  with st1 have st2: "st2 = st\<lparr>dict_errno := e2\<rparr>" by simp
  show thesis
  proof (cases va)
    case True
    with m1 m2 st1 st2 show ?thesis
      by (intro is_alias) (simp_all add: c_def resolve_cascade_def)
  next
    case nva: False
    show ?thesis
    proof (cases "e1 = 0")
      case False
      with nva m1 st1 show ?thesis
        by (intro fail) (simp_all add: c_def resolve_cascade_def)
    next
      case e1: True
      show ?thesis
      proof (cases vm)
        case True
        with nva e1 m1 m2 st1 st2 show ?thesis
          by (intro is_virtual) (simp_all add: c_def resolve_cascade_def)
      next
        case nvm: False
        show ?thesis
        proof (cases "e2 = 0")
          case False
          with nva nvm e1 m1 m2 st1 st2 show ?thesis
            by (intro fail) (simp_all add: c_def resolve_cascade_def)
        next
          case True
          with nva nvm e1 m1 m2 st1 st2
          have c: "c = resolve_relay_default ctx (st\<lparr>dict_errno := e2\<rparr>)"
            by (simp add: c_def resolve_cascade_def)
          show ?thesis
          proof (cases rule: resolve_relay_default_cases [of ctx "st\<lparr>dict_errno := e2\<rparr>"])
            case relay
            then show ?thesis using c by (intro that(3)) simp_all
          next
            case default
            then show ?thesis using c by (intro that(4)) simp_all
          next
            case fail
            then show ?thesis using c by (intro that(5)) simp_all
          qed
        qed
      qed
    qed
  qed
qed

subsection \<open>Evaluating the scenarios\<close>

lemmas scenario_eval =
  resolve_addr_def resolve_before_transport_def resolve_parse_def resolve_strip.simps
  strip_iter_def strip_dot_def strip_domain_def strip_retry_def scenario_ctx_def
  example_internalize_def Let_def example_scan_def flush_atom_def example_quote_def
  example_rewrite_def resolve_classify_def resolve_routed_def resolve_rcpt_tree_def
  resolve_class_nonlocal_def resolve_nexthop_domain_def resolve_cascade_def
  resolve_relay_default_def resolve_relayhost_def resolve_channel_split_def
  resolve_class_local_def resolve_local_warn_def resolve_sanity_def resolve_relocated_def
  resolve_transport_def transport_lookup_def list_match_def msg_warn_def split_at_def
  lowercase_def strspn_def strrchr_next_def resolve_flag_defs domain_is_def no_lookup_def
  MAIL_ADDR_POSTMASTER_def REWRITE_CANON_def MAIN_CONF_FILE_def
  VAR_ERROR_TRANSPORT_def VAR_VIRT_TRANSPORT_def VAR_RELAY_TRANSPORT_def
  VAR_DEF_TRANSPORT_def VAR_LOCAL_TRANSPORT_def VAR_VIRT_ALIAS_DOMS_def
  VAR_VIRT_MAILBOX_DOMS_def VAR_RELAY_DOMAINS_def VAR_RELOCATED_MAPS_def
  VAR_TRANSPORT_MAPS_def VAR_MYDEST_def

subsection \<open>Taking resolve_addr apart\<close>

lemma resolve_addr_parts:
  assumes "resolve_addr ctx addr c n = Some (Inr st)"
  obtains s st1 where
    "resolve_strip ctx \<lparr>tree = resolve_parse ctx addr, saved_domain = None, domain = None\<rparr> = Some s"
    "resolve_sanity ctx (resolve_classify ctx s c n) = Inr st1"
    "resolve_before_transport ctx addr c n = Some (Inr (resolve_relocated ctx st1))"
    "st = resolve_transport ctx (resolve_relocated ctx st1)"
  using assms
  by (auto simp: resolve_addr_def resolve_before_transport_def
      split: option.splits sum.splits)

lemma fail_clear_back:
  "f' = f \<or> f' = f OR RESOLVE_FLAG_FAIL \<Longrightarrow> f' AND RESOLVE_FLAG_FAIL = 0 \<Longrightarrow>
   f' = f \<and> f AND RESOLVE_FLAG_FAIL = 0"
  by auto

lemma class_bits_distinct:
  "RESOLVE_CLASS_ALIAS \<noteq> RESOLVE_CLASS_VIRTUAL" "RESOLVE_CLASS_ALIAS \<noteq> RESOLVE_CLASS_RELAY"
  "RESOLVE_CLASS_ALIAS \<noteq> RESOLVE_CLASS_DEFAULT" "RESOLVE_CLASS_VIRTUAL \<noteq> RESOLVE_CLASS_RELAY"
  "RESOLVE_CLASS_VIRTUAL \<noteq> RESOLVE_CLASS_DEFAULT" "RESOLVE_CLASS_RELAY \<noteq> RESOLVE_CLASS_DEFAULT"
  "RESOLVE_CLASS_VIRTUAL \<noteq> RESOLVE_CLASS_ALIAS" "RESOLVE_CLASS_RELAY \<noteq> RESOLVE_CLASS_ALIAS"
  "RESOLVE_CLASS_DEFAULT \<noteq> RESOLVE_CLASS_ALIAS" "RESOLVE_CLASS_RELAY \<noteq> RESOLVE_CLASS_VIRTUAL"
  "RESOLVE_CLASS_DEFAULT \<noteq> RESOLVE_CLASS_VIRTUAL" "RESOLVE_CLASS_DEFAULT \<noteq> RESOLVE_CLASS_RELAY"
  by (simp_all add: resolve_flag_defs)

text \<open>For a state without classification bits, the classification bits after the cascade
  tell the branch taken, and with it the channel and the next hop.\<close>

lemma resolve_cascade_by_class:
  assumes "resolve_class_bits (flags st) = []"
  shows "resolve_class_bits (flags (resolve_cascade ctx st)) = [RESOLVE_CLASS_ALIAS] \<Longrightarrow>
           channel (resolve_cascade ctx st) = var_error_transport ctx
           \<and> nexthop (resolve_cascade ctx st) = ''User unknown''"
    and "resolve_class_bits (flags (resolve_cascade ctx st)) = [RESOLVE_CLASS_VIRTUAL] \<Longrightarrow>
           channel (resolve_cascade ctx st) = var_virt_transport ctx
           \<and> nexthop (resolve_cascade ctx st) = nexthop st"
    and "resolve_class_bits (flags (resolve_cascade ctx st)) = [RESOLVE_CLASS_RELAY] \<Longrightarrow>
           channel (resolve_cascade ctx st) = var_relay_transport ctx
           \<and> nexthop (resolve_cascade ctx st)
               = (if var_relayhost ctx \<noteq> [] then var_relayhost ctx else nexthop st)"
    and "resolve_class_bits (flags (resolve_cascade ctx st)) = [RESOLVE_CLASS_DEFAULT] \<Longrightarrow>
           channel (resolve_cascade ctx st) = var_def_transport ctx
           \<and> nexthop (resolve_cascade ctx st)
               = (if var_relayhost ctx \<noteq> [] then var_relayhost ctx else nexthop st)"
proof -
  note cb = class_bits_or_class [OF assms]
  show "resolve_class_bits (flags (resolve_cascade ctx st)) = [RESOLVE_CLASS_ALIAS] \<Longrightarrow>
           channel (resolve_cascade ctx st) = var_error_transport ctx
           \<and> nexthop (resolve_cascade ctx st) = ''User unknown''"
    by (cases rule: resolve_cascade_cases [of ctx st])
       (simp_all add: cb class_bits_distinct assms)
  show "resolve_class_bits (flags (resolve_cascade ctx st)) = [RESOLVE_CLASS_VIRTUAL] \<Longrightarrow>
           channel (resolve_cascade ctx st) = var_virt_transport ctx
           \<and> nexthop (resolve_cascade ctx st) = nexthop st"
    by (cases rule: resolve_cascade_cases [of ctx st])
       (simp_all add: cb class_bits_distinct assms)
  show "resolve_class_bits (flags (resolve_cascade ctx st)) = [RESOLVE_CLASS_RELAY] \<Longrightarrow>
           channel (resolve_cascade ctx st) = var_relay_transport ctx
           \<and> nexthop (resolve_cascade ctx st)
               = (if var_relayhost ctx \<noteq> [] then var_relayhost ctx else nexthop st)"
    by (cases rule: resolve_cascade_cases [of ctx st])
       (simp_all add: cb class_bits_distinct assms)
  show "resolve_class_bits (flags (resolve_cascade ctx st)) = [RESOLVE_CLASS_DEFAULT] \<Longrightarrow>
           channel (resolve_cascade ctx st) = var_def_transport ctx
           \<and> nexthop (resolve_cascade ctx st)
               = (if var_relayhost ctx \<noteq> [] then var_relayhost ctx else nexthop st)"
    by (cases rule: resolve_cascade_cases [of ctx st])
       (simp_all add: cb class_bits_distinct assms)
qed

subsection \<open>Splitting the channel\<close>

lemma split_at_first:
  "c \<notin> set t \<Longrightarrow> split_at (t @ c # d) c = Some (t, d)"
  by (induction t) (auto simp: split_at_def)

lemma split_at_none: "c \<notin> set s \<Longrightarrow> split_at s c = None"
  by (simp add: split_at_def)

lemma resolve_channel_split_colon:
  "CHR '':'' \<notin> set t \<Longrightarrow> channel st = t @ CHR '':'' # d \<Longrightarrow>
   channel (resolve_channel_split st) = t
   \<and> nexthop (resolve_channel_split st) = (if d \<noteq> [] then d else nexthop st)"
  by (simp add: resolve_channel_split_def split_at_first)

subsection \<open>The sanity checks and the next hop\<close>

lemma resolve_sanity_clear:
  "resolve_sanity ctx st = Inr st' \<Longrightarrow> flags st' AND RESOLVE_FLAG_FAIL = 0 \<Longrightarrow>
   st' = st \<and> channel st \<noteq> [] \<and> nexthop st \<noteq> []"
  by (auto simp: resolve_sanity_def split: if_splits option.splits)

lemma resolve_sanity_panic:
  "flags st AND RESOLVE_FLAG_FAIL = 0 \<Longrightarrow> nexthop st = [] \<Longrightarrow> \<exists>p. resolve_sanity ctx st = Inl p"
  by (auto simp: resolve_sanity_def split: option.splits)

lemma resolve_sanity_warn:
  "flags st AND RESOLVE_FLAG_FAIL = 0 \<Longrightarrow> channel st = [] \<Longrightarrow> nexthop st \<noteq> [] \<Longrightarrow>
   blame st = Some b \<Longrightarrow>
   resolve_sanity ctx st =
     Inr ((msg_warn (''file '' @ var_config_dir ctx @ ''/'' @ MAIN_CONF_FILE @ '': parameter '' @ b
             @ '': null transport is not allowed'') st)\<lparr>flags := flags st OR RESOLVE_FLAG_FAIL\<rparr>)"
  by (simp add: resolve_sanity_def)

lemma resolve_relocated_nexthop:
  "nexthop st \<noteq> [] \<Longrightarrow> nexthop (resolve_relocated ctx st) \<noteq> []"
  by (auto simp: resolve_relocated_def split: option.splits prod.splits)

lemma resolve_transport_nexthop:
  "nexthop st \<noteq> [] \<Longrightarrow> nexthop (resolve_transport ctx st) \<noteq> []"
  by (auto simp: resolve_transport_def transport_lookup_def split: option.splits prod.splits)

lemma resolve_addr_nexthop:
  assumes ret: "resolve_addr ctx addr c n = Some (Inr r)"
    and ok: "flags r AND RESOLVE_FLAG_FAIL = 0"
  shows "nexthop r \<noteq> []"
proof -
  from ret obtain s st1 where
    sane: "resolve_sanity ctx (resolve_classify ctx s c n) = Inr st1"
    and r: "r = resolve_transport ctx (resolve_relocated ctx st1)"
    by (rule resolve_addr_parts)
  from fail_clear_back [OF resolve_transport_flags [of ctx "resolve_relocated ctx st1"]] ok r
  have "flags (resolve_relocated ctx st1) AND RESOLVE_FLAG_FAIL = 0" by simp
  with fail_clear_back [OF resolve_relocated_flags [of ctx st1]]
  have "flags st1 AND RESOLVE_FLAG_FAIL = 0" by simp
  from resolve_sanity_clear [OF sane this] have "nexthop st1 \<noteq> []" by simp
  then have "nexthop (resolve_relocated ctx st1) \<noteq> []" by (rule resolve_relocated_nexthop)
  then show ?thesis unfolding r by (rule resolve_transport_nexthop)
qed

subsection \<open>The transport map and the error transport\<close>

lemma resolve_transport_guard:
  "\<not> (var_transport_maps ctx \<noteq> [] \<and> flags st AND RESOLVE_FLAG_FAIL = 0
       \<and> channel st \<noteq> var_error_transport ctx) \<Longrightarrow>
   resolve_transport (ctx\<lparr>transport_path := tp\<rparr>) st = st"
  by (auto simp: resolve_transport_def)

lemma resolve_transport_same: "resolve_transport (ctx\<lparr>transport_path := transport_path ctx\<rparr>) st
    = resolve_transport ctx st"
  by simp

lemma resolve_relocated_hit:
  "flags st AND RESOLVE_FLAG_FAIL = 0 \<Longrightarrow> relocated_maps ctx = Some look \<Longrightarrow>
   look (nextrcpt st) (dict_errno st) = (Some newloc, e) \<Longrightarrow>
   channel (resolve_relocated ctx st) = var_error_transport ctx
   \<and> nexthop (resolve_relocated ctx st) = ''user has moved to '' @ newloc"
  by (simp add: resolve_relocated_def)

subsection \<open>The phases before the transport map do not depend on the map\<close>

lemma strip_retry_transport_path:
  "strip_retry (ctx\<lparr>transport_path := tp\<rparr>) s = strip_retry ctx s"
  by (simp add: strip_retry_def)

lemma strip_domain_transport_path:
  "strip_domain (ctx\<lparr>transport_path := tp\<rparr>) s = strip_domain ctx s"
  by (simp add: strip_domain_def strip_retry_transport_path split: option.split prod.split)

lemma strip_iter_transport_path:
  "strip_iter (ctx\<lparr>transport_path := tp\<rparr>) s = strip_iter ctx s"
  by (simp add: strip_iter_def strip_domain_transport_path Let_def)

lemma resolve_strip_transport_path_Some:
  assumes "resolve_strip ctx s = Some y"
  shows "resolve_strip (ctx\<lparr>transport_path := tp\<rparr>) s = Some y"
proof (rule resolve_strip.raw_induct
    [where P = "\<lambda>ctx s y. resolve_strip (ctx\<lparr>transport_path := tp\<rparr>) s = Some y", OF _ assms])
  fix f :: "resolve_ctx \<Rightarrow> strip_state \<Rightarrow> strip_state option" and ctx s y
  assume IH: "\<And>c' s' y'. f c' s' = Some y' \<Longrightarrow> resolve_strip (c'\<lparr>transport_path := tp\<rparr>) s' = Some y'"
    and body: "(if tree s = [] then Some s
      else case strip_iter ctx s of Continue s' \<Rightarrow> f ctx s' | Break s' \<Rightarrow> Some s') = Some y"
  show "resolve_strip (ctx\<lparr>transport_path := tp\<rparr>) s = Some y"
  proof (cases "tree s = []")
    case True
    with body show ?thesis by (subst resolve_strip.simps) simp
  next
    case False
    show ?thesis
    proof (cases "strip_iter ctx s")
      case (Continue s')
      with False body have "f ctx s' = Some y" by simp
      then have "resolve_strip (ctx\<lparr>transport_path := tp\<rparr>) s' = Some y" by (rule IH)
      with False Continue show ?thesis
        by (subst resolve_strip.simps) (simp add: strip_iter_transport_path)
    next
      case (Break s')
      with False body show ?thesis
        by (subst resolve_strip.simps) (simp add: strip_iter_transport_path)
    qed
  qed
qed

lemma resolve_strip_transport_path:
  "resolve_strip (ctx\<lparr>transport_path := tp\<rparr>) s = resolve_strip ctx s"
proof (cases "resolve_strip ctx s")
  case (Some y)
  then show ?thesis by (simp add: resolve_strip_transport_path_Some)
next
  case None
  show ?thesis
  proof (cases "resolve_strip (ctx\<lparr>transport_path := tp\<rparr>) s")
    case None': None
    with None show ?thesis by simp
  next
    case (Some y)
    from resolve_strip_transport_path_Some [OF Some, of "transport_path ctx"]
    have "resolve_strip ctx s = Some y" by simp
    with None show ?thesis by simp
  qed
qed

lemma resolve_classify_transport_path:
  "resolve_classify (ctx\<lparr>transport_path := tp\<rparr>) s c n = resolve_classify ctx s c n"
proof -
  have rd: "\<And>st. resolve_relay_default (ctx\<lparr>transport_path := tp\<rparr>) st = resolve_relay_default ctx st"
    by (simp add: resolve_relay_default_def resolve_relayhost_def Let_def split: prod.split option.split sum.split)
  have ca: "\<And>st. resolve_cascade (ctx\<lparr>transport_path := tp\<rparr>) st = resolve_cascade ctx st"
    by (simp add: resolve_cascade_def rd Let_def split: prod.split option.split sum.split)
  have nd: "\<And>nxt st. resolve_nexthop_domain (ctx\<lparr>transport_path := tp\<rparr>) nxt st
      = resolve_nexthop_domain ctx nxt st"
    by (simp add: resolve_nexthop_domain_def Let_def split: prod.split option.split sum.split)
  have lw: "\<And>st. resolve_local_warn (ctx\<lparr>transport_path := tp\<rparr>) st = resolve_local_warn ctx st"
    by (simp add: resolve_local_warn_def Let_def split: prod.split option.split sum.split)
  have cl: "\<And>st. resolve_class_local (ctx\<lparr>transport_path := tp\<rparr>) st = resolve_class_local ctx st"
    by (simp add: resolve_class_local_def lw Let_def split: prod.split option.split sum.split)
  have rt: "resolve_rcpt_tree (ctx\<lparr>transport_path := tp\<rparr>) s = resolve_rcpt_tree ctx s"
    by (simp add: resolve_rcpt_tree_def Let_def split: prod.split option.split sum.split)
  show ?thesis
    by (simp add: resolve_classify_def resolve_class_nonlocal_def ca nd cl rt Let_def split: prod.split option.split sum.split)
qed

lemma resolve_before_transport_path:
  "resolve_before_transport (ctx\<lparr>transport_path := tp\<rparr>) addr c n
     = resolve_before_transport ctx addr c n"
proof -
  have sa: "\<And>st. resolve_sanity (ctx\<lparr>transport_path := tp\<rparr>) st = resolve_sanity ctx st"
    by (simp add: resolve_sanity_def Let_def split: prod.split option.split sum.split)
  have rl: "\<And>st. resolve_relocated (ctx\<lparr>transport_path := tp\<rparr>) st = resolve_relocated ctx st"
    by (simp add: resolve_relocated_def Let_def split: prod.split option.split sum.split)
  have pa: "resolve_parse (ctx\<lparr>transport_path := tp\<rparr>) addr = resolve_parse ctx addr"
    by (simp add: resolve_parse_def Let_def split: prod.split option.split sum.split)
  show ?thesis
    by (simp add: resolve_before_transport_def resolve_strip_transport_path
        resolve_classify_transport_path sa rl pa split: option.split sum.split)
qed

subsection \<open>The blame after the classification\<close>

lemma resolve_classify_blame:
  assumes "flags (resolve_classify ctx s c n) AND RESOLVE_FLAG_FAIL = 0"
  shows "blame (resolve_classify ctx s c n) \<noteq> None"
proof (cases "domain s")
  case None
  then show ?thesis
    by (simp add: resolve_classify_def resolve_class_local_def Let_def
        split: option.split prod.split)
next
  case (Some d)
  obtain prev nxt where d: "d = (prev, nxt)" by (cases d)
  let ?st = "\<lparr>channel = c, nexthop = n,
                nextrcpt = tok822_internalize ctx (resolve_rcpt_tree ctx s),
                flags = resolve_routed s, blame = None, dict_errno = 0, warnings = []\<rparr>"
  let ?st1 = "resolve_nexthop_domain ctx nxt ?st"
  have res: "resolve_classify ctx s c n = resolve_channel_split (resolve_cascade ctx ?st1)"
    using Some d by (simp add: resolve_classify_def resolve_class_nonlocal_def)
  from assms have ok: "flags (resolve_cascade ctx ?st1) AND RESOLVE_FLAG_FAIL = 0"
    unfolding res by simp
  have "blame (resolve_cascade ctx ?st1) \<noteq> None"
    using ok by (cases rule: resolve_cascade_cases [of ctx ?st1]) simp_all
  then show ?thesis unfolding res by simp
qed

section \<open>Properties of the SMTP address lookup\<close>

subsection \<open>Sorting by preference\<close>

lemma smtp_compare_mx_le: "smtp_compare_mx a b \<le> 0 \<longleftrightarrow> pref a \<le> pref b"
  by (simp add: smtp_compare_mx_def word_le_def)

lemma dns_rr_insort_mx: "dns_rr_insort smtp_compare_mx x ys = insort_key pref x ys"
  by (induction ys) (simp_all add: smtp_compare_mx_le)

lemma dns_rr_sort_mx: "dns_rr_sort xs smtp_compare_mx = sort_key pref xs"
  by (induction xs) (simp_all add: dns_rr_sort_def dns_rr_insort_mx)

lemma dns_rr_sort_sorted: "sorted (map pref (dns_rr_sort xs smtp_compare_mx))"
  by (simp add: dns_rr_sort_mx)

lemma dns_rr_sort_stable:
  "filter (\<lambda>m. pref m = k) (dns_rr_sort xs smtp_compare_mx) = filter (\<lambda>m. pref m = k) xs"
  by (simp add: dns_rr_sort_mx sort_key_stable)

lemma dns_rr_sort_set: "set (dns_rr_sort xs smtp_compare_mx) = set xs"
  by (simp add: dns_rr_sort_mx)

lemma sorted_same_pref: "\<forall>r \<in> set xs. pref r = (c :: 16 word) \<Longrightarrow> sorted (map pref xs)"
  by (induction xs) auto

subsection \<open>Collecting the addresses\<close>

lemma ucast_pref_id: "(ucast (ucast (p :: 16 word) :: 32 word) :: 16 word) = p"
  by (simp add: ucast_up_ucast_id is_up)

lemma ucast_pref_eq: "(ucast (p :: 16 word) :: 32 word) = ucast (q :: 16 word) \<longleftrightarrow> p = q"
  by (metis ucast_pref_id)

lemma smtp_addr_one_list:
  "fst (smtp_addr_one env addr_list (data mx) (ucast (pref mx)) st)
     = addr_list @ mx_addr_records env mx"
  by (cases "dns_lookup env (data mx) T_A")
     (simp add: smtp_addr_one_def mx_addr_records_def dns_rr_append_def ucast_pref_id
        split: dns_status.split)

lemma smtp_addr_list_loop_list:
  "smtp_addr_list_loop env mx_names addr_list st = Inr (al, st') \<Longrightarrow>
   al = addr_list @ concat (map (mx_addr_records env) mx_names)"
proof (induction mx_names arbitrary: addr_list st)
  case Nil
  then show ?case by simp
next
  case (Cons rr mx_names)
  obtain al1 st1 where one: "smtp_addr_one env addr_list (data rr) (ucast (pref rr)) st = (al1, st1)"
    by (cases "smtp_addr_one env addr_list (data rr) (ucast (pref rr)) st")
  with smtp_addr_one_list [of env addr_list rr st]
  have al1: "al1 = addr_list @ mx_addr_records env rr" by simp
  from Cons.prems one have "smtp_addr_list_loop env mx_names al1 st1 = Inr (al, st')"
    by (simp split: if_splits)
  from Cons.IH [OF this] al1 show ?case by simp
qed

lemma smtp_addr_list_list:
  "smtp_addr_list env mx_names st = Inr (al, st') \<Longrightarrow>
   al = concat (map (mx_addr_records env) mx_names)"
  using smtp_addr_list_loop_list [of env mx_names "[]" st al st']
  by (simp add: smtp_addr_list_def)

lemma mx_addr_records_pref: "r \<in> set (mx_addr_records env mx) \<Longrightarrow> pref r = pref mx"
  by (cases "dns_lookup env (data mx) T_A")
     (auto simp: mx_addr_records_def split: dns_status.splits)

lemma sorted_concat_mx:
  "sorted (map pref mxs) \<Longrightarrow> sorted (map pref (concat (map (mx_addr_records env) mxs)))"
proof (induction mxs)
  case Nil
  then show ?case by simp
next
  case (Cons m mxs)
  have head: "\<forall>r \<in> set (mx_addr_records env m). pref r = pref m"
    by (simp add: mx_addr_records_pref)
  then have "sorted (map pref (mx_addr_records env m))"
    by (rule sorted_same_pref)
  moreover have "\<forall>r \<in> set (mx_addr_records env m).
      \<forall>r' \<in> set (concat (map (mx_addr_records env) mxs)). pref r \<le> pref r'"
    using Cons.prems head by (auto dest!: mx_addr_records_pref)
  ultimately show ?case
    using Cons by (simp add: sorted_append)
qed

lemma filter_concat_mx:
  "filter (\<lambda>r. pref r = k) (concat (map (mx_addr_records env) mxs))
     = concat (map (mx_addr_records env) (filter (\<lambda>m. pref m = k) mxs))"
proof (induction mxs)
  case Nil
  then show ?case by simp
next
  case (Cons m mxs)
  have "filter (\<lambda>r. pref r = k) (mx_addr_records env m)
      = (if pref m = k then mx_addr_records env m else [])"
    by (auto simp: filter_empty_conv filter_id_conv dest: mx_addr_records_pref)
  with Cons show ?case by simp
qed

subsection \<open>Finding and cutting off the local host\<close>

lemma smtp_find_self_Nil:
  "smtp_find_self env al = [] \<longleftrightarrow>
   (\<forall>x \<in> set al. INADDRP (data x) \<notin> set (own_inet_addr_list env))"
  by (induction al) (auto simp: list_ex_iff)

lemma smtp_find_self_Cons:
  "smtp_find_self env al = self # rest \<Longrightarrow>
   \<exists>before. al = before @ self # rest
     \<and> INADDRP (data self) \<in> set (own_inet_addr_list env)
     \<and> (\<forall>x \<in> set before. INADDRP (data x) \<notin> set (own_inet_addr_list env))"
proof (induction al)
  case Nil
  then show ?case by simp
next
  case (Cons a al)
  show ?case
  proof (cases "list_ex (\<lambda>self. INADDRP (data a) = self) (own_inet_addr_list env)")
    case True
    with Cons.prems have "a = self" "al = rest" by simp_all
    with True show ?thesis by (auto simp: list_ex_iff)
  next
    case False
    with Cons.prems have "smtp_find_self env al = self # rest" by simp
    from Cons.IH [OF this] obtain before where
      "al = before @ self # rest" "INADDRP (data self) \<in> set (own_inet_addr_list env)"
      "\<forall>x \<in> set before. INADDRP (data x) \<notin> set (own_inet_addr_list env)" by blast
    with False have "a # al = (a # before) @ self # rest
      \<and> INADDRP (data self) \<in> set (own_inet_addr_list env)
      \<and> (\<forall>x \<in> set (a # before). INADDRP (data x) \<notin> set (own_inet_addr_list env))"
      by (auto simp: list_ex_iff)
    then show ?thesis by blast
  qed
qed

lemma smtp_find_self_mem: "smtp_find_self env al = self # rest \<Longrightarrow> self \<in> set al"
  by (drule smtp_find_self_Cons) auto

lemma smtp_truncate_loop_found:
  "\<exists>r \<in> set rest. pref r = q \<Longrightarrow>
   smtp_truncate_loop al (ucast q) nm st passed rest =
     (if passed @ takeWhile (\<lambda>r. pref r \<noteq> q) rest = []
      then ([], st\<lparr>why := ''mail for '' @ nm @ '' loops back to myself'',
                    smtp_errno := SMTP_FAIL\<rparr>)
      else (passed @ takeWhile (\<lambda>r. pref r \<noteq> q) rest, st))"
proof (induction rest arbitrary: passed)
  case Nil
  then show ?case by simp
next
  case (Cons a rest)
  show ?case
  proof (cases "pref a = q")
    case True
    then show ?thesis by (simp add: ucast_pref_eq)
  next
    case False
    with Cons.prems have "\<exists>r \<in> set rest. pref r = q" by auto
    from Cons.IH [OF this, of "passed @ [a]"] False show ?thesis
      by (simp add: ucast_pref_eq)
  qed
qed

lemma smtp_truncate_self_found:
  "s \<in> set al \<Longrightarrow>
   smtp_truncate_self al (ucast (pref s)) nm st =
     (if takeWhile (\<lambda>r. pref r \<noteq> pref s) al = []
      then ([], st\<lparr>why := ''mail for '' @ nm @ '' loops back to myself'',
                    smtp_errno := SMTP_FAIL\<rparr>)
      else (takeWhile (\<lambda>r. pref r \<noteq> pref s) al, st))"
proof -
  assume "s \<in> set al"
  then have "\<exists>r \<in> set al. pref r = pref s" by blast
  from smtp_truncate_loop_found [OF this, of al nm st "[]"] show ?thesis
    by (simp add: smtp_truncate_self_def)
qed

lemma takeWhile_sorted_pref:
  "sorted (map pref al) \<Longrightarrow> s \<in> set al \<Longrightarrow>
   takeWhile (\<lambda>r. pref r \<noteq> pref s) al = filter (\<lambda>r. pref r < pref (s :: dns_rr)) al"
proof (induction al)
  case Nil
  then show ?case by simp
next
  case (Cons a al)
  show ?case
  proof (cases "pref a = pref s")
    case True
    with Cons.prems have "\<forall>r \<in> set (a # al). \<not> pref r < pref s" by auto
    then have "filter (\<lambda>r. pref r < pref s) (a # al) = []"
      unfolding filter_empty_conv by blast
    with True show ?thesis by simp
  next
    case False
    with Cons.prems have s: "s \<in> set al" by auto
    with Cons.prems have "pref a \<le> pref s" by auto
    with False have lt: "pref a < pref s" by simp
    from Cons.prems have "sorted (map pref al)" by simp
    from Cons.IH [OF this s] False lt show ?thesis by simp
  qed
qed

subsection \<open>Addresses as bytes\<close>

lemma of_char_char_of_unat: "(of_char (char_of (unat (w::32 word))) :: 32 word) = take_bit 8 w"
proof -
  have "(of_char (char_of (unat w)) :: 32 word) = of_nat (of_char (char_of (unat w)))"
    by (simp add: of_char_def)
  also have "\<dots> = of_nat (take_bit 8 (unat w))" by (simp add: take_bit_eq_mod)
  also have "\<dots> = take_bit 8 w"
    by (simp add: of_nat_take_bit flip: unsigned_take_bit_eq)
  finally show ?thesis .
qed

lemma INADDRP_in_addr_data: "INADDRP (in_addr_data a) = a"
proof (rule bit_word_eqI)
  fix n :: nat
  assume "n < LENGTH(32)"
  then have n: "n < 32" by simp
  have "n < 8 \<or> (8 \<le> n \<and> n < 16) \<or> (16 \<le> n \<and> n < 24) \<or> (24 \<le> n \<and> n < 32)"
    using n by arith
  then show "bit (INADDRP (in_addr_data a)) n = bit a n"
    unfolding INADDRP_def in_addr_data_def
    by (auto simp add: of_char_char_of_unat bit_simps)
qed

subsection \<open>The two entry points\<close>

lemma smtp_addr_one_pref:
  "r \<in> set (fst (smtp_addr_one env [] host p st)) \<Longrightarrow> pref r = ucast p"
  by (cases "dns_lookup env host T_A")
     (auto simp: smtp_addr_one_def dns_rr_append_def split: dns_status.splits)

lemma smtp_host_addr_pref:
  "r \<in> set (fst (smtp_host_addr env host st)) \<Longrightarrow> pref r = 0"
  by (auto simp: smtp_host_addr_def dns_rr_create_def PREF0_def
           split: if_splits dest!: smtp_addr_one_pref)

lemma smtp_domain_addr_ok:
  assumes "dns_lookup env nm T_MX = (DNS_OK, mx_names, w)"
    and "smtp_domain_addr env nm st = Inr (addr_list, st')"
  shows "prefix addr_list (concat (map (mx_addr_records env) (dns_rr_sort mx_names smtp_compare_mx)))"
proof -
  let ?full = "concat (map (mx_addr_records env) (dns_rr_sort mx_names smtp_compare_mx))"
  obtain st1 where al: "smtp_addr_list env (dns_rr_sort mx_names smtp_compare_mx) (set_why w st)
      = Inr (?full, st1)"
    using assms smtp_addr_list_list [of env "dns_rr_sort mx_names smtp_compare_mx" "set_why w st"]
    by (cases "smtp_addr_list env (dns_rr_sort mx_names smtp_compare_mx) (set_why w st)")
       (auto simp: smtp_domain_addr_def)
  show ?thesis
  proof (cases "smtp_find_self env ?full")
    case Nil
    with assms al show ?thesis by (simp add: smtp_domain_addr_def)
  next
    case (Cons self rest)
    have "self \<in> set ?full" using Cons by (rule smtp_find_self_mem)
    from smtp_truncate_self_found [OF this, of nm st1]
    have "fst (smtp_truncate_self ?full (ucast (pref self)) nm st1)
        = takeWhile (\<lambda>r. pref r \<noteq> pref self) ?full" by simp
    with assms al Cons have "addr_list = takeWhile (\<lambda>r. pref r \<noteq> pref self) ?full"
      by (auto simp: smtp_domain_addr_def)
    then show ?thesis by (simp add: takeWhile_is_prefix)
  qed
qed

lemma sorted_prefix: "prefix xs ys \<Longrightarrow> sorted (map f ys) \<Longrightarrow> sorted (map f xs)"
  by (auto simp: prefix_def sorted_append)

lemma filter_prefix: "prefix xs ys \<Longrightarrow> prefix (filter P xs) (filter P ys)"
  by (auto simp: prefix_def)

subsection \<open>Reading numeric addresses\<close>


subsection \<open>The example name service\<close>

lemma example_far_t_org:
  "smtp_domain_addr example_env_far ''t.org'' example_state
     = Inr ([(a_record ''first.t.org'' 0x0A000003)\<lparr>pref := 5\<rparr>,
             (a_record ''first.t.org'' 0x0A000004)\<lparr>pref := 5\<rparr>,
             (a_record ''mx.example.com'' 0x0A000001)\<lparr>pref := 10\<rparr>,
             (a_record ''backup.t.org'' 0x0A000002)\<lparr>pref := 20\<rparr>], example_state)"
  by (simp add: smtp_domain_addr_def smtp_addr_list_def smtp_addr_one_def dns_rr_sort_def
        smtp_compare_mx_def mx_record_def example_env_far_def example_env_def example_dns_def
        T_A_def T_MX_def set_why_def dns_rr_append_def a_record_def INADDRP_in_addr_data)

section \<open>Claims about the resolver\<close>

text \<open>
  Claim C1. Whenever \<open>resolve_addr\<close> returns with the \<open>FAIL\<close> bit clear, exactly one of
  the classification bits \<open>LOCAL\<close>, \<open>ALIAS\<close>, \<open>VIRTUAL\<close>, \<open>RELAY\<close>, \<open>DEFAULT\<close> is set in the
  flags; this holds for local and for non-local destinations, whether or not \<open>ERROR\<close> or
  \<open>ROUTED\<close> is set as well.
\<close>

theorem resolve_addr_one_class_bit:
  assumes ret: "resolve_addr ctx addr c n = Some (Inr st)"
    and ok: "flags st AND RESOLVE_FLAG_FAIL = 0"
  shows "length (resolve_class_bits (flags st)) = 1"
proof -
  from ret obtain s st1 where
    sane: "resolve_sanity ctx (resolve_classify ctx s c n) = Inr st1"
    and st: "st = resolve_transport ctx (resolve_relocated ctx st1)"
    by (rule resolve_addr_parts)
  let ?q = "\<lambda>f. f AND RESOLVE_FLAG_FAIL \<noteq> 0 \<or> length (resolve_class_bits f) = 1"
  have "?q (flags (resolve_classify ctx s c n))"
    by (rule resolve_classify_flags)
  then have "?q (flags st1)"
    using resolve_sanity_flags [OF sane] by (rule class_or_fail_keep)
  then have "?q (flags (resolve_relocated ctx st1))"
    using resolve_relocated_flags [of ctx st1] by (rule class_or_fail_keep)
  then have "?q (flags st)"
    unfolding st using resolve_transport_flags [of ctx "resolve_relocated ctx st1"]
    by (rule class_or_fail_keep)
  with ok show ?thesis by simp
qed

theorem resolve_addr_one_class_bit_witness:
  "resolve_addr scenario_ctx ''bob@bad_host.org'' [] [] =
     Some (Inr \<lparr>channel = ''smtp'', nexthop = ''bad_host.org'', nextrcpt = ''bob@bad_host.org'',
       flags = RESOLVE_FLAG_ERROR OR RESOLVE_CLASS_DEFAULT, blame = Some ''default_transport'',
       dict_errno = 0, warnings = []\<rparr>)
   \<and> (RESOLVE_FLAG_ERROR OR RESOLVE_CLASS_DEFAULT) AND RESOLVE_FLAG_FAIL = 0
   \<and> length (resolve_class_bits (RESOLVE_FLAG_ERROR OR RESOLVE_CLASS_DEFAULT)) = 1
   \<and> resolve_addr scenario_ctx ''alice@example.com'' [] [] =
     Some (Inr \<lparr>channel = ''local'', nexthop = ''mx.example.com'', nextrcpt = ''alice@example.com'',
       flags = RESOLVE_CLASS_LOCAL, blame = Some ''local_transport'',
       dict_errno = 0, warnings = []\<rparr>)
   \<and> length (resolve_class_bits RESOLVE_CLASS_LOCAL) = 1"
proof -
  have a: "resolve_addr scenario_ctx ''bob@bad_host.org'' [] [] =
     Some (Inr \<lparr>channel = ''smtp'', nexthop = ''bad_host.org'', nextrcpt = ''bob@bad_host.org'',
       flags = RESOLVE_FLAG_ERROR OR RESOLVE_CLASS_DEFAULT, blame = Some ''default_transport'',
       dict_errno = 0, warnings = []\<rparr>)"
    by (simp add: scenario_eval)
  have b: "resolve_addr scenario_ctx ''alice@example.com'' [] [] =
     Some (Inr \<lparr>channel = ''local'', nexthop = ''mx.example.com'', nextrcpt = ''alice@example.com'',
       flags = RESOLVE_CLASS_LOCAL, blame = Some ''local_transport'',
       dict_errno = 0, warnings = []\<rparr>)"
    by (simp add: scenario_eval)
  have fa: "(RESOLVE_FLAG_ERROR OR RESOLVE_CLASS_DEFAULT) AND RESOLVE_FLAG_FAIL = 0"
    by (simp add: resolve_flag_defs)
  have fb: "RESOLVE_CLASS_LOCAL AND RESOLVE_FLAG_FAIL = 0"
    by (simp add: resolve_flag_defs)
  from resolve_addr_one_class_bit [OF a] fa
  have 1: "length (resolve_class_bits (RESOLVE_FLAG_ERROR OR RESOLVE_CLASS_DEFAULT)) = 1" by simp
  from resolve_addr_one_class_bit [OF b] fb
  have 2: "length (resolve_class_bits RESOLVE_CLASS_LOCAL) = 1" by simp
  from a b fa 1 2 show ?thesis by simp
qed

text \<open>
  Claim C4, as stated, fails for a virtual mailbox domain: with \<open>relayhost\<close> set to
  \<open>smart.isp.net\<close> and \<open>vbox.org\<close> a virtual mailbox domain, mail for \<open>u@vbox.org\<close> is
  classified \<open>VIRTUAL\<close> and its next hop is the domain, not the relayhost.
\<close>

theorem resolve_relayhost_virtual_counterexample:
  "var_relayhost relayhost_ctx = ''smart.isp.net''
   \<and> resolve_addr relayhost_ctx ''u@vbox.org'' [] [] =
     Some (Inr \<lparr>channel = ''virtual'', nexthop = ''vbox.org'', nextrcpt = ''u@vbox.org'',
       flags = RESOLVE_CLASS_VIRTUAL, blame = Some ''virtual_transport'',
       dict_errno = 0, warnings = []\<rparr>)"
  by (simp add: relayhost_ctx_def scenario_eval)

text \<open>
  Claim C4, amended. For a destination that is not local, when the cascade lands in case 4
  (\<open>RELAY\<close>) or case 5 (\<open>DEFAULT\<close>) and \<open>relayhost\<close> is not empty, the next hop is set to
  \<open>relayhost\<close> before the channel is split at its colon. The override is applied neither in
  the \<open>ALIAS\<close> case, where the next hop is "User unknown", nor in the \<open>VIRTUAL\<close> case, where
  the next hop stays the domain.
\<close>

theorem resolve_relayhost_relay_default:
  assumes "resolve_class_bits (flags st) = []" and "var_relayhost ctx \<noteq> []"
  shows "(resolve_class_bits (flags (resolve_cascade ctx st)) = [RESOLVE_CLASS_RELAY]
          \<or> resolve_class_bits (flags (resolve_cascade ctx st)) = [RESOLVE_CLASS_DEFAULT]
          \<longrightarrow> nexthop (resolve_cascade ctx st) = var_relayhost ctx)
    \<and> (resolve_class_bits (flags (resolve_cascade ctx st)) = [RESOLVE_CLASS_ALIAS]
          \<longrightarrow> nexthop (resolve_cascade ctx st) = ''User unknown'')
    \<and> (resolve_class_bits (flags (resolve_cascade ctx st)) = [RESOLVE_CLASS_VIRTUAL]
          \<longrightarrow> nexthop (resolve_cascade ctx st) = nexthop st)
    \<and> resolve_class_nonlocal ctx nxt st0
        = resolve_channel_split (resolve_cascade ctx (resolve_nexthop_domain ctx nxt st0))"
  using resolve_cascade_by_class [OF assms(1), of ctx] assms(2)
  by (simp add: resolve_class_nonlocal_def)

theorem resolve_relayhost_relay_default_witness:
  "nexthop (resolve_cascade relayhost_ctx
      \<lparr>channel = [], nexthop = ''client.org'', nextrcpt = ''c@client.org'', flags = 0,
       blame = None, dict_errno = 0, warnings = []\<rparr>) = ''smart.isp.net''
   \<and> nexthop (resolve_cascade relayhost_ctx
      \<lparr>channel = [], nexthop = ''valias.org'', nextrcpt = ''a@valias.org'', flags = 0,
       blame = None, dict_errno = 0, warnings = []\<rparr>) = ''User unknown''
   \<and> resolve_addr relayhost_ctx ''c@client.org'' [] [] =
     Some (Inr \<lparr>channel = ''relay'', nexthop = ''smart.isp.net'', nextrcpt = ''c@client.org'',
       flags = RESOLVE_CLASS_RELAY, blame = Some ''relay_transport'',
       dict_errno = 0, warnings = []\<rparr>)
   \<and> resolve_addr relayhost_ctx ''bob@other.org'' [] [] =
     Some (Inr \<lparr>channel = ''smtp'', nexthop = ''smart.isp.net'', nextrcpt = ''bob@other.org'',
       flags = RESOLVE_CLASS_DEFAULT, blame = Some ''default_transport'',
       dict_errno = 0, warnings = []\<rparr>)"
proof -
  let ?c = "\<lparr>channel = [], nexthop = ''client.org'', nextrcpt = ''c@client.org'', flags = 0,
       blame = None, dict_errno = 0, warnings = []\<rparr>"
  let ?a = "\<lparr>channel = [], nexthop = ''valias.org'', nextrcpt = ''a@valias.org'', flags = 0,
       blame = None, dict_errno = 0, warnings = []\<rparr>"
  have rh: "var_relayhost relayhost_ctx \<noteq> []"
    by (simp add: relayhost_ctx_def)
  have bc: "resolve_class_bits (flags (resolve_cascade relayhost_ctx ?c)) = [RESOLVE_CLASS_RELAY]"
    by (simp add: relayhost_ctx_def scenario_eval resolve_class_bits_def)
  have ba: "resolve_class_bits (flags (resolve_cascade relayhost_ctx ?a)) = [RESOLVE_CLASS_ALIAS]"
    by (simp add: relayhost_ctx_def scenario_eval resolve_class_bits_def)
  from resolve_relayhost_relay_default [of ?c relayhost_ctx] rh bc
  have 1: "nexthop (resolve_cascade relayhost_ctx ?c) = ''smart.isp.net''"
    by (simp add: relayhost_ctx_def)
  from resolve_relayhost_relay_default [of ?a relayhost_ctx] rh ba
  have 2: "nexthop (resolve_cascade relayhost_ctx ?a) = ''User unknown''"
    by simp
  have 3: "resolve_addr relayhost_ctx ''c@client.org'' [] [] =
     Some (Inr \<lparr>channel = ''relay'', nexthop = ''smart.isp.net'', nextrcpt = ''c@client.org'',
       flags = RESOLVE_CLASS_RELAY, blame = Some ''relay_transport'',
       dict_errno = 0, warnings = []\<rparr>)"
    by (simp add: relayhost_ctx_def scenario_eval)
  have 4: "resolve_addr relayhost_ctx ''bob@other.org'' [] [] =
     Some (Inr \<lparr>channel = ''smtp'', nexthop = ''smart.isp.net'', nextrcpt = ''bob@other.org'',
       flags = RESOLVE_CLASS_DEFAULT, blame = Some ''default_transport'',
       dict_errno = 0, warnings = []\<rparr>)"
    by (simp add: relayhost_ctx_def scenario_eval)
  from 1 2 3 4 show ?thesis by simp
qed

text \<open>
  Claim C5. For a destination that is not local, when the channel that the cascade
  assigned contains a colon, \<open>resolve_addr\<close> splits it at the first colon: the part before
  it becomes the channel, and a part after it that is not empty becomes the next hop,
  whatever the cascade had put there; since the relayhost is assigned in the cascade, a
  next hop in the channel wins over a relayhost.
\<close>

theorem resolve_channel_split_at_first_colon:
  assumes "channel (resolve_cascade ctx (resolve_nexthop_domain ctx nxt st)) = t @ CHR '':'' # d"
    and "CHR '':'' \<notin> set t"
  shows "channel (resolve_class_nonlocal ctx nxt st) = t
    \<and> nexthop (resolve_class_nonlocal ctx nxt st)
        = (if d \<noteq> [] then d
           else nexthop (resolve_cascade ctx (resolve_nexthop_domain ctx nxt st)))
    \<and> flags (resolve_class_nonlocal ctx nxt st)
        = flags (resolve_cascade ctx (resolve_nexthop_domain ctx nxt st))"
  using resolve_channel_split_colon [OF assms(2) assms(1)]
  by (simp add: resolve_class_nonlocal_def)

theorem resolve_channel_split_at_first_colon_witness:
  "channel (resolve_class_nonlocal colon_ctx (example_scan ''other.org'')
      \<lparr>channel = [], nexthop = [], nextrcpt = ''bob@other.org'', flags = 0,
       blame = None, dict_errno = 0, warnings = []\<rparr>) = ''smtp''
   \<and> nexthop (resolve_class_nonlocal colon_ctx (example_scan ''other.org'')
      \<lparr>channel = [], nexthop = [], nextrcpt = ''bob@other.org'', flags = 0,
       blame = None, dict_errno = 0, warnings = []\<rparr>) = ''relay.isp.net''
   \<and> var_relayhost colon_ctx = ''smart.isp.net''
   \<and> resolve_addr colon_ctx ''bob@other.org'' [] [] =
     Some (Inr \<lparr>channel = ''smtp'', nexthop = ''relay.isp.net'', nextrcpt = ''bob@other.org'',
       flags = RESOLVE_CLASS_DEFAULT, blame = Some ''default_transport'',
       dict_errno = 0, warnings = []\<rparr>)"
proof -
  let ?st = "\<lparr>channel = [], nexthop = [], nextrcpt = ''bob@other.org'', flags = 0,
       blame = None, dict_errno = 0, warnings = []\<rparr>"
  have ch: "channel (resolve_cascade colon_ctx
        (resolve_nexthop_domain colon_ctx (example_scan ''other.org'') ?st))
      = ''smtp'' @ CHR '':'' # ''relay.isp.net''"
    by (simp add: colon_ctx_def scenario_eval)
  have no: "CHR '':'' \<notin> set ''smtp''" by simp
  from resolve_channel_split_at_first_colon [OF ch no]
  have 1: "channel (resolve_class_nonlocal colon_ctx (example_scan ''other.org'') ?st) = ''smtp''"
    and 2: "nexthop (resolve_class_nonlocal colon_ctx (example_scan ''other.org'') ?st)
      = ''relay.isp.net''"
    by simp_all
  have 3: "var_relayhost colon_ctx = ''smart.isp.net''"
    by (simp add: colon_ctx_def)
  have 4: "resolve_addr colon_ctx ''bob@other.org'' [] [] =
     Some (Inr \<lparr>channel = ''smtp'', nexthop = ''relay.isp.net'', nextrcpt = ''bob@other.org'',
       flags = RESOLVE_CLASS_DEFAULT, blame = Some ''default_transport'',
       dict_errno = 0, warnings = []\<rparr>)"
    by (simp add: colon_ctx_def scenario_eval)
  from 1 2 3 4 show ?thesis by simp
qed

text \<open>
  Claim C6, as stated, fails where it has an empty channel abort the process: with an
  empty \<open>default_transport\<close>, mail for \<open>bob@other.org\<close> reaches the sanity checks classified
  \<open>DEFAULT\<close>, with neither \<open>FAIL\<close> nor \<open>ERROR\<close>, and \<open>resolve_addr\<close> returns, with a warning that
  names \<open>default_transport\<close> and with the \<open>FAIL\<close> bit set.
\<close>

theorem resolve_null_transport_counterexample:
  "resolve_sanity null_transport_ctx
      \<lparr>channel = [], nexthop = ''other.org'', nextrcpt = ''bob@other.org'',
       flags = RESOLVE_CLASS_DEFAULT, blame = Some ''default_transport'',
       dict_errno = 0, warnings = []\<rparr>
     = Inr \<lparr>channel = [], nexthop = ''other.org'', nextrcpt = ''bob@other.org'',
       flags = RESOLVE_CLASS_DEFAULT OR RESOLVE_FLAG_FAIL, blame = Some ''default_transport'',
       dict_errno = 0,
       warnings = [''file /etc/postfix/main.cf: parameter default_transport: null transport is not allowed'']\<rparr>
   \<and> resolve_addr null_transport_ctx ''bob@other.org'' [] [] =
     Some (Inr \<lparr>channel = [], nexthop = ''other.org'', nextrcpt = ''bob@other.org'',
       flags = RESOLVE_CLASS_DEFAULT OR RESOLVE_FLAG_FAIL, blame = Some ''default_transport'',
       dict_errno = 0,
       warnings = [''file /etc/postfix/main.cf: parameter default_transport: null transport is not allowed'']\<rparr>)"
  by (simp add: null_transport_ctx_def scenario_eval)

text \<open>
  Claim C6, amended. When \<open>resolve_addr\<close> reaches the sanity checks with \<open>FAIL\<close> clear
  (whether or not \<open>ERROR\<close> is set), an empty channel is logged as a warning that blames the
  parameter that assigned it last and sets \<open>FAIL\<close>, without aborting; an empty next hop is a
  panic. With \<open>FAIL\<close> set the checks are skipped. The blame is set whenever the
  classification leaves \<open>FAIL\<close> clear. So channel and next hop are not empty
  after the checks when \<open>FAIL\<close> is clear, and whenever \<open>resolve_addr\<close> returns with \<open>FAIL\<close>
  clear the next hop is not empty.
\<close>

theorem resolve_sanity_null_transport:
  "(flags st AND RESOLVE_FLAG_FAIL = 0 \<and> channel st = [] \<and> nexthop st \<noteq> [] \<and> blame st = Some b \<longrightarrow>
      resolve_sanity ctx st =
        Inr ((msg_warn (''file '' @ var_config_dir ctx @ ''/main.cf: parameter '' @ b
                @ '': null transport is not allowed'') st)\<lparr>flags := flags st OR RESOLVE_FLAG_FAIL\<rparr>))
   \<and> (flags st AND RESOLVE_FLAG_FAIL = 0 \<and> nexthop st = [] \<longrightarrow> (\<exists>p. resolve_sanity ctx st = Inl p))
   \<and> (flags st AND RESOLVE_FLAG_FAIL \<noteq> 0 \<longrightarrow> resolve_sanity ctx st = Inr st)
   \<and> (resolve_sanity ctx st = Inr st' \<and> flags st' AND RESOLVE_FLAG_FAIL = 0 \<longrightarrow>
        st' = st \<and> channel st' \<noteq> [] \<and> nexthop st' \<noteq> [])
   \<and> (flags (resolve_classify ctx s c n) AND RESOLVE_FLAG_FAIL = 0 \<longrightarrow>
        blame (resolve_classify ctx s c n) \<noteq> None)
   \<and> (resolve_addr ctx addr c n = Some (Inr r) \<and> flags r AND RESOLVE_FLAG_FAIL = 0 \<longrightarrow>
        nexthop r \<noteq> [])"
proof -
  have 1: "flags st AND RESOLVE_FLAG_FAIL = 0 \<and> channel st = [] \<and> nexthop st \<noteq> [] \<and> blame st = Some b \<longrightarrow>
      resolve_sanity ctx st =
        Inr ((msg_warn (''file '' @ var_config_dir ctx @ ''/main.cf: parameter '' @ b
                @ '': null transport is not allowed'') st)\<lparr>flags := flags st OR RESOLVE_FLAG_FAIL\<rparr>)"
    using resolve_sanity_warn [of st b ctx] by (simp add: MAIN_CONF_FILE_def)
  have 2: "flags st AND RESOLVE_FLAG_FAIL = 0 \<and> nexthop st = [] \<longrightarrow> (\<exists>p. resolve_sanity ctx st = Inl p)"
    using resolve_sanity_panic [of st ctx] by blast
  have 3: "flags st AND RESOLVE_FLAG_FAIL \<noteq> 0 \<longrightarrow> resolve_sanity ctx st = Inr st"
    by (simp add: resolve_sanity_def)
  have 4: "resolve_sanity ctx st = Inr st' \<and> flags st' AND RESOLVE_FLAG_FAIL = 0 \<longrightarrow>
        st' = st \<and> channel st' \<noteq> [] \<and> nexthop st' \<noteq> []"
    using resolve_sanity_clear [of ctx st st'] by blast
  have 5: "resolve_addr ctx addr c n = Some (Inr r) \<and> flags r AND RESOLVE_FLAG_FAIL = 0 \<longrightarrow>
        nexthop r \<noteq> []"
    using resolve_addr_nexthop [of ctx addr c n r] by blast
  have 6: "flags (resolve_classify ctx s c n) AND RESOLVE_FLAG_FAIL = 0 \<longrightarrow>
        blame (resolve_classify ctx s c n) \<noteq> None"
    using resolve_classify_blame [of ctx s c n] by blast
  from 1 2 3 4 5 6 show ?thesis by blast
qed

theorem resolve_sanity_null_transport_witness:
  "resolve_sanity null_transport_ctx
      \<lparr>channel = [], nexthop = ''other.org'', nextrcpt = ''bob@other.org'',
       flags = RESOLVE_FLAG_ERROR OR RESOLVE_CLASS_DEFAULT, blame = Some ''default_transport'',
       dict_errno = 0, warnings = []\<rparr>
     = Inr \<lparr>channel = [], nexthop = ''other.org'', nextrcpt = ''bob@other.org'',
       flags = RESOLVE_FLAG_ERROR OR RESOLVE_CLASS_DEFAULT OR RESOLVE_FLAG_FAIL,
       blame = Some ''default_transport'', dict_errno = 0,
       warnings = [''file /etc/postfix/main.cf: parameter default_transport: null transport is not allowed'']\<rparr>
   \<and> (\<exists>p. resolve_sanity scenario_ctx
      \<lparr>channel = ''smtp'', nexthop = [], nextrcpt = ''bob@other.org'',
       flags = RESOLVE_CLASS_DEFAULT, blame = Some ''default_transport'',
       dict_errno = 0, warnings = []\<rparr> = Inl p)
   \<and> nexthop \<lparr>channel = ''smtp'', nexthop = ''other.org'', nextrcpt = ''bob@other.org'',
       flags = RESOLVE_CLASS_DEFAULT, blame = Some ''default_transport'',
       dict_errno = 0, warnings = []\<rparr> \<noteq> []"
proof -
  let ?e = "\<lparr>channel = [], nexthop = ''other.org'', nextrcpt = ''bob@other.org'',
       flags = RESOLVE_FLAG_ERROR OR RESOLVE_CLASS_DEFAULT, blame = Some ''default_transport'',
       dict_errno = 0, warnings = []\<rparr>"
  let ?n = "\<lparr>channel = ''smtp'', nexthop = [], nextrcpt = ''bob@other.org'',
       flags = RESOLVE_CLASS_DEFAULT, blame = Some ''default_transport'',
       dict_errno = 0, warnings = []\<rparr>"
  let ?r = "\<lparr>channel = ''smtp'', nexthop = ''other.org'', nextrcpt = ''bob@other.org'',
       flags = RESOLVE_CLASS_DEFAULT, blame = Some ''default_transport'',
       dict_errno = 0, warnings = []\<rparr>"
  have fe: "flags ?e AND RESOLVE_FLAG_FAIL = 0" by (simp add: resolve_flag_defs)
  have fn: "flags ?n AND RESOLVE_FLAG_FAIL = 0" by (simp add: resolve_flag_defs)
  have ret: "resolve_addr scenario_ctx ''bob@other.org'' [] [] = Some (Inr ?r)"
    by (simp add: scenario_eval)
  have fr: "flags ?r AND RESOLVE_FLAG_FAIL = 0" by (simp add: resolve_flag_defs)
  have 1: "resolve_sanity null_transport_ctx ?e
     = Inr \<lparr>channel = [], nexthop = ''other.org'', nextrcpt = ''bob@other.org'',
       flags = RESOLVE_FLAG_ERROR OR RESOLVE_CLASS_DEFAULT OR RESOLVE_FLAG_FAIL,
       blame = Some ''default_transport'', dict_errno = 0,
       warnings = [''file /etc/postfix/main.cf: parameter default_transport: null transport is not allowed'']\<rparr>"
  proof -
    have "flags ?e AND RESOLVE_FLAG_FAIL = 0 \<and> channel ?e = [] \<and> nexthop ?e \<noteq> []
        \<and> blame ?e = Some ''default_transport''"
      using fe by simp
    with resolve_sanity_null_transport
      [where st = ?e and b = "''default_transport''" and ctx = null_transport_ctx,
        THEN conjunct1]
    have "resolve_sanity null_transport_ctx ?e =
        Inr ((msg_warn (''file '' @ var_config_dir null_transport_ctx @ ''/main.cf: parameter ''
                @ ''default_transport'' @ '': null transport is not allowed'') ?e)
              \<lparr>flags := flags ?e OR RESOLVE_FLAG_FAIL\<rparr>)"
      by (rule mp)
    then show ?thesis
      by (simp add: null_transport_ctx_def scenario_ctx_def msg_warn_def or.assoc)
  qed
  have 2: "\<exists>p. resolve_sanity scenario_ctx ?n = Inl p"
  proof -
    have "flags ?n AND RESOLVE_FLAG_FAIL = 0 \<and> nexthop ?n = []" using fn by simp
    with resolve_sanity_null_transport
      [where st = ?n and ctx = scenario_ctx, THEN conjunct2, THEN conjunct1]
    show ?thesis by (rule mp)
  qed
  have 3: "nexthop ?r \<noteq> []"
  proof -
    have "resolve_addr scenario_ctx ''bob@other.org'' [] [] = Some (Inr ?r)
        \<and> flags ?r AND RESOLVE_FLAG_FAIL = 0"
      using ret fr by simp
    with resolve_sanity_null_transport
      [where ctx = scenario_ctx and addr = "''bob@other.org''" and c = "[]" and n = "[]"
         and r = ?r,
        THEN conjunct2, THEN conjunct2, THEN conjunct2, THEN conjunct2, THEN conjunct2]
    show ?thesis by (rule mp)
  qed
  from 1 2 3 show ?thesis by blast
qed

text \<open>
  The guard of the transport map phase. When the channel equals the configured
  \<open>error_transport\<close> as the phase is reached, the transport map is not consulted: the result
  of the phase is the state it started from, and \<open>resolve_addr\<close> returns that state
  whatever the map holds. The map is consulted only when its configuration is not empty,
  \<open>FAIL\<close> is clear and the channel differs from \<open>error_transport\<close>. A hit in the relocated map
  sets the channel to \<open>error_transport\<close> (next hop "user has moved to ..."). The \<open>ALIAS\<close>
  branch of the cascade sets it too (next hop "User unknown"), but the split at the colon
  comes after the cascade and before the guard.
\<close>

lemma resolve_error_transport_kept:
  "(resolve_before_transport ctx addr c n = Some (Inr st) \<and> channel st = var_error_transport ctx \<longrightarrow>
      resolve_addr ctx addr c n = Some (Inr st)
      \<and> resolve_addr (ctx\<lparr>transport_path := tp\<rparr>) addr c n = Some (Inr st))
   \<and> (channel st = var_error_transport ctx \<longrightarrow> resolve_transport (ctx\<lparr>transport_path := tp\<rparr>) st = st)
   \<and> (\<not> (var_transport_maps ctx \<noteq> [] \<and> flags st AND RESOLVE_FLAG_FAIL = 0
           \<and> channel st \<noteq> var_error_transport ctx) \<longrightarrow>
        resolve_transport (ctx\<lparr>transport_path := tp\<rparr>) st = st)
   \<and> (flags st AND RESOLVE_FLAG_FAIL = 0 \<and> relocated_maps ctx = Some look
        \<and> look (nextrcpt st) (dict_errno st) = (Some newloc, e) \<longrightarrow>
        channel (resolve_relocated ctx st) = var_error_transport ctx
        \<and> nexthop (resolve_relocated ctx st) = ''user has moved to '' @ newloc
        \<and> resolve_transport ctx (resolve_relocated ctx st) = resolve_relocated ctx st)
   \<and> (resolve_class_bits (flags st) = []
        \<and> resolve_class_bits (flags (resolve_cascade ctx st)) = [RESOLVE_CLASS_ALIAS] \<longrightarrow>
        channel (resolve_cascade ctx st) = var_error_transport ctx
        \<and> nexthop (resolve_cascade ctx st) = ''User unknown'')"
proof -
  have guard: "\<And>s. \<not> (var_transport_maps ctx \<noteq> [] \<and> flags s AND RESOLVE_FLAG_FAIL = 0
           \<and> channel s \<noteq> var_error_transport ctx) \<longrightarrow>
        resolve_transport (ctx\<lparr>transport_path := tp\<rparr>) s = s"
    using resolve_transport_guard by blast
  have same: "\<And>s. channel s = var_error_transport ctx \<longrightarrow> resolve_transport ctx s = s"
    using resolve_transport_guard [of ctx _ "transport_path ctx"] by simp
  have 1: "resolve_before_transport ctx addr c n = Some (Inr st) \<and> channel st = var_error_transport ctx \<longrightarrow>
      resolve_addr ctx addr c n = Some (Inr st)
      \<and> resolve_addr (ctx\<lparr>transport_path := tp\<rparr>) addr c n = Some (Inr st)"
    using same [of st] guard [of st]
    by (simp add: resolve_addr_def resolve_before_transport_path)
  have 2: "channel st = var_error_transport ctx \<longrightarrow> resolve_transport (ctx\<lparr>transport_path := tp\<rparr>) st = st"
    using guard [of st] by blast
  have 4: "flags st AND RESOLVE_FLAG_FAIL = 0 \<and> relocated_maps ctx = Some look
        \<and> look (nextrcpt st) (dict_errno st) = (Some newloc, e) \<longrightarrow>
        channel (resolve_relocated ctx st) = var_error_transport ctx
        \<and> nexthop (resolve_relocated ctx st) = ''user has moved to '' @ newloc
        \<and> resolve_transport ctx (resolve_relocated ctx st) = resolve_relocated ctx st"
    using resolve_relocated_hit [of st ctx look newloc e] same [of "resolve_relocated ctx st"]
    by blast
  have 5: "resolve_class_bits (flags st) = []
        \<and> resolve_class_bits (flags (resolve_cascade ctx st)) = [RESOLVE_CLASS_ALIAS] \<longrightarrow>
        channel (resolve_cascade ctx st) = var_error_transport ctx
        \<and> nexthop (resolve_cascade ctx st) = ''User unknown''"
    using resolve_cascade_by_class(1) [of st ctx] by blast
  from 1 2 guard [of st] 4 5 show ?thesis by blast
qed

lemma resolve_error_transport_kept_example:
  "resolve_addr transport_ctx ''a@valias.org'' [] [] =
     Some (Inr \<lparr>channel = ''error'', nexthop = ''User unknown'', nextrcpt = ''a@valias.org'',
       flags = RESOLVE_CLASS_ALIAS, blame = Some ''error_transport'',
       dict_errno = 0, warnings = []\<rparr>)
   \<and> resolve_addr transport_ctx ''old@example.com'' [] [] =
     Some (Inr \<lparr>channel = ''error'', nexthop = ''user has moved to new@elsewhere.org'',
       nextrcpt = ''old@example.com'', flags = RESOLVE_CLASS_LOCAL,
       blame = Some ''local_transport'', dict_errno = 0, warnings = []\<rparr>)
   \<and> resolve_addr transport_ctx ''bob@other.org'' [] [] =
     Some (Inr \<lparr>channel = ''uucp'', nexthop = ''gateway'', nextrcpt = ''bob@other.org'',
       flags = RESOLVE_CLASS_DEFAULT, blame = Some ''default_transport'',
       dict_errno = 0, warnings = []\<rparr>)"
proof -
  let ?a = "\<lparr>channel = ''error'', nexthop = ''User unknown'', nextrcpt = ''a@valias.org'',
       flags = RESOLVE_CLASS_ALIAS, blame = Some ''error_transport'',
       dict_errno = 0, warnings = []\<rparr>"
  let ?m = "\<lparr>channel = ''error'', nexthop = ''user has moved to new@elsewhere.org'',
       nextrcpt = ''old@example.com'', flags = RESOLVE_CLASS_LOCAL,
       blame = Some ''local_transport'', dict_errno = 0, warnings = []\<rparr>"
  have ba: "resolve_before_transport transport_ctx ''a@valias.org'' [] [] = Some (Inr ?a)
      \<and> channel ?a = var_error_transport transport_ctx"
    by (simp add: transport_ctx_def scenario_eval moved_lookup_def)
  have bm: "resolve_before_transport transport_ctx ''old@example.com'' [] [] = Some (Inr ?m)
      \<and> channel ?m = var_error_transport transport_ctx"
    by (simp add: transport_ctx_def scenario_eval moved_lookup_def)
  from ba resolve_error_transport_kept
    [where ctx = transport_ctx and addr = "''a@valias.org''" and c = "[]" and n = "[]"
       and st = ?a, THEN conjunct1]
  have 1: "resolve_addr transport_ctx ''a@valias.org'' [] [] = Some (Inr ?a)"
    by blast
  from bm resolve_error_transport_kept
    [where ctx = transport_ctx and addr = "''old@example.com''" and c = "[]" and n = "[]"
       and st = ?m, THEN conjunct1]
  have 2: "resolve_addr transport_ctx ''old@example.com'' [] [] = Some (Inr ?m)"
    by blast
  have 3: "resolve_addr transport_ctx ''bob@other.org'' [] [] =
     Some (Inr \<lparr>channel = ''uucp'', nexthop = ''gateway'', nextrcpt = ''bob@other.org'',
       flags = RESOLVE_CLASS_DEFAULT, blame = Some ''default_transport'',
       dict_errno = 0, warnings = []\<rparr>)"
    by (simp add: transport_ctx_def scenario_eval uucp_lookup_def moved_lookup_def)
  from 1 2 3 show ?thesis by simp
qed

text \<open>
  Claim C7 holds of the guard, and not of the resolutions it is said to cover. With
  \<open>error_transport\<close> set to \<open>error:\<close>, an address in a virtual alias domain is classified
  \<open>ALIAS\<close> with next hop "User unknown", and the split at the colon leaves the channel
  \<open>error\<close>. The guard compares the channel with the unsplit \<open>error_transport\<close>, finds them
  different and lets the transport map replace channel and next hop, against the comment
  above it (the error transport is not to be overridden). The relocated map, which copies
  \<open>error_transport\<close> into the channel after the split, is protected under the same
  configuration.
\<close>

theorem resolve_error_transport_overridden:
  "var_error_transport error_colon_ctx = ''error:''
   \<and> resolve_before_transport error_colon_ctx ''a@valias.org'' [] [] =
     Some (Inr \<lparr>channel = ''error'', nexthop = ''User unknown'', nextrcpt = ''a@valias.org'',
       flags = RESOLVE_CLASS_ALIAS, blame = Some ''error_transport'',
       dict_errno = 0, warnings = []\<rparr>)
   \<and> resolve_addr error_colon_ctx ''a@valias.org'' [] [] =
     Some (Inr \<lparr>channel = ''uucp'', nexthop = ''gateway'', nextrcpt = ''a@valias.org'',
       flags = RESOLVE_CLASS_ALIAS, blame = Some ''error_transport'',
       dict_errno = 0, warnings = []\<rparr>)
   \<and> resolve_addr error_colon_ctx ''old@example.com'' [] [] =
     Some (Inr \<lparr>channel = ''error:'', nexthop = ''user has moved to new@elsewhere.org'',
       nextrcpt = ''old@example.com'', flags = RESOLVE_CLASS_LOCAL,
       blame = Some ''local_transport'', dict_errno = 0, warnings = []\<rparr>)"
proof -
  have 1: "var_error_transport error_colon_ctx = ''error:''"
    by (simp add: error_colon_ctx_def)
  have 2: "resolve_before_transport error_colon_ctx ''a@valias.org'' [] [] =
     Some (Inr \<lparr>channel = ''error'', nexthop = ''User unknown'', nextrcpt = ''a@valias.org'',
       flags = RESOLVE_CLASS_ALIAS, blame = Some ''error_transport'',
       dict_errno = 0, warnings = []\<rparr>)"
    by (simp add: error_colon_ctx_def transport_ctx_def scenario_eval moved_lookup_def)
  have 3: "resolve_addr error_colon_ctx ''a@valias.org'' [] [] =
     Some (Inr \<lparr>channel = ''uucp'', nexthop = ''gateway'', nextrcpt = ''a@valias.org'',
       flags = RESOLVE_CLASS_ALIAS, blame = Some ''error_transport'',
       dict_errno = 0, warnings = []\<rparr>)"
    by (simp add: error_colon_ctx_def transport_ctx_def scenario_eval moved_lookup_def
          uucp_lookup_def)
  have 4: "resolve_addr error_colon_ctx ''old@example.com'' [] [] =
     Some (Inr \<lparr>channel = ''error:'', nexthop = ''user has moved to new@elsewhere.org'',
       nextrcpt = ''old@example.com'', flags = RESOLVE_CLASS_LOCAL,
       blame = Some ''local_transport'', dict_errno = 0, warnings = []\<rparr>)"
    by (simp add: error_colon_ctx_def transport_ctx_def scenario_eval moved_lookup_def
          uucp_lookup_def)
  from 1 2 3 4 show ?thesis by simp
qed

text \<open>
  Claim C9, as stated, fails in two ways that the scenario configuration leaves open. When
  the address is parsed in its unquoted form (\<open>resolve_dequoted_address\<close> on), the empty
  address has no token at all, the stripping loop is not entered, and the recipient is
  \<open>@mx.example.com\<close>, not \<open>postmaster@example.com\<close>. When canonical rewriting qualifies an
  address with the host name \<open>mx.example.com\<close>, which is not in \<open>mydestination\<close>, the
  postmaster address is not local: the recipient is \<open>postmaster@mx.example.com\<close> and the
  flags are \<open>DEFAULT\<close>.
\<close>

theorem resolve_empty_address_counterexample:
  "var_myhostname dequoted_ctx = ''mx.example.com''
   \<and> resolve_local dequoted_ctx ''example.com''
   \<and> resolve_parse dequoted_ctx [] = []
   \<and> resolve_addr dequoted_ctx [] [] [] =
     Some (Inr \<lparr>channel = ''local'', nexthop = ''mx.example.com'', nextrcpt = ''@mx.example.com'',
       flags = RESOLVE_CLASS_LOCAL, blame = Some ''local_transport'',
       dict_errno = 0, warnings = []\<rparr>)
   \<and> var_myhostname origin_ctx = ''mx.example.com''
   \<and> resolve_local origin_ctx ''example.com''
   \<and> resolve_parse origin_ctx [] = [TOK822_QSTRING []]
   \<and> resolve_addr origin_ctx [] [] [] =
     Some (Inr \<lparr>channel = ''smtp'', nexthop = ''mx.example.com'',
       nextrcpt = ''postmaster@mx.example.com'', flags = RESOLVE_CLASS_DEFAULT,
       blame = Some ''default_transport'', dict_errno = 0, warnings = []\<rparr>)"
  by (simp add: dequoted_ctx_def origin_ctx_def scenario_eval)

text \<open>
  Claim C9, amended. In the stripping loop, a tree that is exactly one empty quoted string
  is replaced by the scan of "postmaster", rewritten canonically, and the rest of the loop
  body works on the result. When the address is parsed in its quoted form, the quoted
  empty address scans to one empty quoted string, canonical rewriting turns \<open>postmaster\<close>
  into \<open>postmaster@example.com\<close>, \<open>example.com\<close> is local, \<open>myhostname\<close> is
  \<open>mx.example.com\<close>, \<open>local_transport\<close> is \<open>local\<close> and the virtual lists, the relocated map and
  the transport map are empty, the empty address resolves to recipient
  \<open>postmaster@example.com\<close>, channel \<open>local\<close>, next hop \<open>mx.example.com\<close>, flags \<open>LOCAL\<close>.
\<close>

theorem resolve_empty_address_postmaster:
  "(strip_iter ctx (s\<lparr>tree := [TOK822_QSTRING []]\<rparr>)
     = strip_domain ctx (s\<lparr>tree := rewrite_tree ctx ''canonical'' (tok822_scan ctx ''postmaster'')\<rparr>)
    \<and> resolve_strip ctx (s\<lparr>tree := [TOK822_QSTRING []]\<rparr>)
     = (case strip_domain ctx
              (s\<lparr>tree := rewrite_tree ctx ''canonical'' (tok822_scan ctx ''postmaster'')\<rparr>) of
          Continue s' \<Rightarrow> resolve_strip ctx s'
        | Break s' \<Rightarrow> Some s'))
   \<and> (\<not> var_resolve_dequoted ctx
        \<and> tok822_scan_addr ctx (quote_822_local ctx []) = [TOK822_QSTRING []]
        \<and> rewrite_tree ctx ''canonical'' (tok822_scan ctx ''postmaster'')
            = [TOK822_ATOM ''postmaster'', TOK822_OP CHR ''@'', TOK822_ATOM ''example'',
               TOK822_OP CHR ''.'', TOK822_ATOM ''com'']
        \<and> resolve_local ctx
             (tok822_internalize ctx
               [TOK822_ATOM ''example'', TOK822_OP CHR ''.'', TOK822_ATOM ''com''])
        \<and> tok822_internalize ctx
             [TOK822_ATOM ''postmaster'', TOK822_OP CHR ''@'', TOK822_ATOM ''example'',
              TOK822_OP CHR ''.'', TOK822_ATOM ''com''] = ''postmaster@example.com''
        \<and> var_myhostname ctx = ''mx.example.com'' \<and> var_local_transport ctx = ''local''
        \<and> virt_alias_doms ctx = None \<and> virt_mailbox_doms ctx = None
        \<and> relocated_maps ctx = None \<and> var_transport_maps ctx = []
      \<longrightarrow> resolve_addr ctx [] c n =
            Some (Inr \<lparr>channel = ''local'', nexthop = ''mx.example.com'',
              nextrcpt = ''postmaster@example.com'', flags = RESOLVE_CLASS_LOCAL,
              blame = Some ''local_transport'', dict_errno = 0, warnings = []\<rparr>))"
proof
  have iter: "strip_iter ctx (s\<lparr>tree := [TOK822_QSTRING []]\<rparr>)
     = strip_domain ctx (s\<lparr>tree := rewrite_tree ctx ''canonical'' (tok822_scan ctx ''postmaster'')\<rparr>)"
    by (simp add: strip_iter_def strip_dot_def Let_def REWRITE_CANON_def MAIL_ADDR_POSTMASTER_def)
  have loop: "resolve_strip ctx (s\<lparr>tree := [TOK822_QSTRING []]\<rparr>)
     = (case strip_domain ctx
              (s\<lparr>tree := rewrite_tree ctx ''canonical'' (tok822_scan ctx ''postmaster'')\<rparr>) of
          Continue s' \<Rightarrow> resolve_strip ctx s'
        | Break s' \<Rightarrow> Some s')"
    by (subst resolve_strip.simps) (simp add: iter)
  from iter loop
  show "strip_iter ctx (s\<lparr>tree := [TOK822_QSTRING []]\<rparr>)
     = strip_domain ctx (s\<lparr>tree := rewrite_tree ctx ''canonical'' (tok822_scan ctx ''postmaster'')\<rparr>)
    \<and> resolve_strip ctx (s\<lparr>tree := [TOK822_QSTRING []]\<rparr>)
     = (case strip_domain ctx
              (s\<lparr>tree := rewrite_tree ctx ''canonical'' (tok822_scan ctx ''postmaster'')\<rparr>) of
          Continue s' \<Rightarrow> resolve_strip ctx s'
        | Break s' \<Rightarrow> Some s')"
    by simp
next
  show "\<not> var_resolve_dequoted ctx
        \<and> tok822_scan_addr ctx (quote_822_local ctx []) = [TOK822_QSTRING []]
        \<and> rewrite_tree ctx ''canonical'' (tok822_scan ctx ''postmaster'')
            = [TOK822_ATOM ''postmaster'', TOK822_OP CHR ''@'', TOK822_ATOM ''example'',
               TOK822_OP CHR ''.'', TOK822_ATOM ''com'']
        \<and> resolve_local ctx
             (tok822_internalize ctx
               [TOK822_ATOM ''example'', TOK822_OP CHR ''.'', TOK822_ATOM ''com''])
        \<and> tok822_internalize ctx
             [TOK822_ATOM ''postmaster'', TOK822_OP CHR ''@'', TOK822_ATOM ''example'',
              TOK822_OP CHR ''.'', TOK822_ATOM ''com''] = ''postmaster@example.com''
        \<and> var_myhostname ctx = ''mx.example.com'' \<and> var_local_transport ctx = ''local''
        \<and> virt_alias_doms ctx = None \<and> virt_mailbox_doms ctx = None
        \<and> relocated_maps ctx = None \<and> var_transport_maps ctx = []
      \<longrightarrow> resolve_addr ctx [] c n =
            Some (Inr \<lparr>channel = ''local'', nexthop = ''mx.example.com'',
              nextrcpt = ''postmaster@example.com'', flags = RESOLVE_CLASS_LOCAL,
              blame = Some ''local_transport'', dict_errno = 0, warnings = []\<rparr>)"
  proof
    assume h: "\<not> var_resolve_dequoted ctx
        \<and> tok822_scan_addr ctx (quote_822_local ctx []) = [TOK822_QSTRING []]
        \<and> rewrite_tree ctx ''canonical'' (tok822_scan ctx ''postmaster'')
            = [TOK822_ATOM ''postmaster'', TOK822_OP CHR ''@'', TOK822_ATOM ''example'',
               TOK822_OP CHR ''.'', TOK822_ATOM ''com'']
        \<and> resolve_local ctx
             (tok822_internalize ctx
               [TOK822_ATOM ''example'', TOK822_OP CHR ''.'', TOK822_ATOM ''com''])
        \<and> tok822_internalize ctx
             [TOK822_ATOM ''postmaster'', TOK822_OP CHR ''@'', TOK822_ATOM ''example'',
              TOK822_OP CHR ''.'', TOK822_ATOM ''com''] = ''postmaster@example.com''
        \<and> var_myhostname ctx = ''mx.example.com'' \<and> var_local_transport ctx = ''local''
        \<and> virt_alias_doms ctx = None \<and> virt_mailbox_doms ctx = None
        \<and> relocated_maps ctx = None \<and> var_transport_maps ctx = []"
    let ?s0 = "\<lparr>tree = [TOK822_QSTRING []], saved_domain = None, domain = None\<rparr>"
    let ?s1 = "\<lparr>tree = [TOK822_ATOM ''postmaster''],
        saved_domain = Some [TOK822_OP CHR ''@'', TOK822_ATOM ''example'',
               TOK822_OP CHR ''.'', TOK822_ATOM ''com''],
        domain = None\<rparr>"
    have parse: "resolve_parse ctx [] = [TOK822_QSTRING []]"
      using h by (simp add: resolve_parse_def)
    have iter: "strip_iter ctx ?s0 = Break ?s1"
      using h
      by (simp add: strip_iter_def strip_dot_def strip_domain_def strip_retry_def Let_def
          REWRITE_CANON_def MAIL_ADDR_POSTMASTER_def)
    have strip: "resolve_strip ctx ?s0 = Some ?s1"
      by (subst resolve_strip.simps) (simp add: iter)
    have classify: "resolve_classify ctx ?s1 c n =
        \<lparr>channel = ''local'', nexthop = ''mx.example.com'',
         nextrcpt = ''postmaster@example.com'', flags = RESOLVE_CLASS_LOCAL,
         blame = Some ''local_transport'', dict_errno = 0, warnings = []\<rparr>"
      using h
      by (simp add: resolve_classify_def resolve_routed_def resolve_rcpt_tree_def Let_def
          resolve_class_local_def resolve_local_warn_def list_match_def split_at_def
          strrchr_next_def VAR_LOCAL_TRANSPORT_def)
    show "resolve_addr ctx [] c n =
            Some (Inr \<lparr>channel = ''local'', nexthop = ''mx.example.com'',
              nextrcpt = ''postmaster@example.com'', flags = RESOLVE_CLASS_LOCAL,
              blame = Some ''local_transport'', dict_errno = 0, warnings = []\<rparr>)"
      using h
      by (simp add: resolve_addr_def resolve_before_transport_def parse strip classify
          resolve_sanity_def resolve_relocated_def resolve_transport_def resolve_flag_defs)
  qed
qed

theorem resolve_empty_address_postmaster_witness:
  "resolve_addr scenario_ctx [] [] [] =
     Some (Inr \<lparr>channel = ''local'', nexthop = ''mx.example.com'',
       nextrcpt = ''postmaster@example.com'', flags = RESOLVE_CLASS_LOCAL,
       blame = Some ''local_transport'', dict_errno = 0, warnings = []\<rparr>)"
proof -
  have h: "\<not> var_resolve_dequoted scenario_ctx
        \<and> tok822_scan_addr scenario_ctx (quote_822_local scenario_ctx []) = [TOK822_QSTRING []]
        \<and> rewrite_tree scenario_ctx ''canonical'' (tok822_scan scenario_ctx ''postmaster'')
            = [TOK822_ATOM ''postmaster'', TOK822_OP CHR ''@'', TOK822_ATOM ''example'',
               TOK822_OP CHR ''.'', TOK822_ATOM ''com'']
        \<and> resolve_local scenario_ctx
             (tok822_internalize scenario_ctx
               [TOK822_ATOM ''example'', TOK822_OP CHR ''.'', TOK822_ATOM ''com''])
        \<and> tok822_internalize scenario_ctx
             [TOK822_ATOM ''postmaster'', TOK822_OP CHR ''@'', TOK822_ATOM ''example'',
              TOK822_OP CHR ''.'', TOK822_ATOM ''com''] = ''postmaster@example.com''
        \<and> var_myhostname scenario_ctx = ''mx.example.com''
        \<and> var_local_transport scenario_ctx = ''local''
        \<and> virt_alias_doms scenario_ctx = None \<and> virt_mailbox_doms scenario_ctx = None
        \<and> relocated_maps scenario_ctx = None \<and> var_transport_maps scenario_ctx = []"
    by (simp add: scenario_ctx_def example_scan_def example_quote_def example_rewrite_def
        example_internalize_def flush_atom_def)
  from resolve_empty_address_postmaster
    [where ctx = scenario_ctx and c = "[]" and n = "[]", THEN conjunct2] h
  show ?thesis by (rule mp)
qed

section \<open>Claims about the SMTP address lookup\<close>

text \<open>
  Claim C2. When the MX lookup for a name succeeds and some record of the address list
  collected from the sorted exchangers carries an address this mail system listens on,
  \<open>smtp_domain_addr\<close> returns exactly the records whose preference is strictly less than
  the preference of the first such record (the self entry). When the self entry is the
  first record of the list, the result is the null list, \<open>smtp_errno\<close> is \<open>SMTP_FAIL\<close> and
  \<open>why\<close> reads "mail for <name> loops back to myself".
\<close>

theorem smtp_domain_addr_truncates_at_self:
  assumes mx: "dns_lookup env nm T_MX = (DNS_OK, mx_names, w)"
    and al: "smtp_addr_list env (dns_rr_sort mx_names smtp_compare_mx) (set_why w st)
               = Inr (addr_list, st1)"
    and own: "\<exists>a \<in> set addr_list. INADDRP (data a) \<in> set (own_inet_addr_list env)"
  shows "smtp_find_self env addr_list \<noteq> []
    \<and> (let self = hd (smtp_find_self env addr_list);
            kept = filter (\<lambda>r. pref r < pref self) addr_list
        in INADDRP (data self) \<in> set (own_inet_addr_list env)
           \<and> (\<exists>before. addr_list = before @ smtp_find_self env addr_list
                 \<and> (\<forall>x \<in> set before. INADDRP (data x) \<notin> set (own_inet_addr_list env)))
           \<and> smtp_domain_addr env nm st =
               Inr (kept,
                    if kept = []
                    then st1\<lparr>why := ''mail for '' @ nm @ '' loops back to myself'',
                             smtp_errno := SMTP_FAIL\<rparr>
                    else st1)
           \<and> (smtp_find_self env addr_list = addr_list \<longrightarrow> kept = []))"
proof -
  from own have ne: "smtp_find_self env addr_list \<noteq> []"
    by (simp add: smtp_find_self_Nil)
  then obtain self rest where fs: "smtp_find_self env addr_list = self # rest"
    by (cases "smtp_find_self env addr_list") auto
  from smtp_find_self_Cons [OF fs] obtain before where
    split: "addr_list = before @ self # rest"
      "INADDRP (data self) \<in> set (own_inet_addr_list env)"
      "\<forall>x \<in> set before. INADDRP (data x) \<notin> set (own_inet_addr_list env)"
    by blast
  have mem: "self \<in> set addr_list" using fs by (rule smtp_find_self_mem)
  have full: "addr_list = concat (map (mx_addr_records env) (dns_rr_sort mx_names smtp_compare_mx))"
    using al by (rule smtp_addr_list_list)
  have "sorted (map pref addr_list)"
    unfolding full by (rule sorted_concat_mx) (rule dns_rr_sort_sorted)
  from takeWhile_sorted_pref [OF this mem]
  have tw: "takeWhile (\<lambda>r. pref r \<noteq> pref self) addr_list
      = filter (\<lambda>r. pref r < pref self) addr_list" .
  let ?kept = "filter (\<lambda>r. pref r < pref self) addr_list"
  let ?st' = "if ?kept = []
      then st1\<lparr>why := ''mail for '' @ nm @ '' loops back to myself'', smtp_errno := SMTP_FAIL\<rparr>
      else st1"
  have res: "smtp_domain_addr env nm st = Inr (?kept, ?st')"
    using mx al fs smtp_truncate_self_found [OF mem, of nm st1] tw
    by (simp add: smtp_domain_addr_def)
  have first: "smtp_find_self env addr_list = addr_list \<longrightarrow> ?kept = []"
  proof
    assume "smtp_find_self env addr_list = addr_list"
    with fs have "takeWhile (\<lambda>r. pref r \<noteq> pref self) addr_list = []" by simp
    with tw show "?kept = []" by simp
  qed
  have ex: "\<exists>before. addr_list = before @ smtp_find_self env addr_list
       \<and> (\<forall>x \<in> set before. INADDRP (data x) \<notin> set (own_inet_addr_list env))"
    using split fs by auto
  show ?thesis
    using ne split(2) ex res first by (simp add: fs Let_def)
qed

theorem smtp_domain_addr_truncates_at_self_witness:
  "smtp_domain_addr example_env ''t.org'' example_state
     = Inr ([(a_record ''first.t.org'' 0x0A000003)\<lparr>pref := 5\<rparr>,
             (a_record ''first.t.org'' 0x0A000004)\<lparr>pref := 5\<rparr>], example_state)
   \<and> smtp_domain_addr example_env ''u.org'' example_state
     = Inr ([], \<lparr>smtp_errno = SMTP_FAIL, why = ''mail for u.org loops back to myself''\<rparr>)"
proof -
  let ?a = "\<lambda>h a p. (a_record h a)\<lparr>pref := p\<rparr>"
  let ?t = "[?a ''first.t.org'' 0x0A000003 5, ?a ''first.t.org'' 0x0A000004 5,
             ?a ''mx.example.com'' 0x0A000001 10, ?a ''backup.t.org'' 0x0A000002 20]"
  let ?u = "[?a ''mx.example.com'' 0x0A000001 10]"
  have mxt: "dns_lookup example_env ''t.org'' T_MX =
      (DNS_OK, [mx_record ''t.org'' 20 ''backup.t.org'', mx_record ''t.org'' 10 ''mx.example.com'',
                mx_record ''t.org'' 5 ''first.t.org''], None)"
    by (simp add: example_env_def example_dns_def)
  have mxu: "dns_lookup example_env ''u.org'' T_MX =
      (DNS_OK, [mx_record ''u.org'' 10 ''mx.example.com''], None)"
    by (simp add: example_env_def example_dns_def)
  have alt: "smtp_addr_list example_env
      (dns_rr_sort [mx_record ''t.org'' 20 ''backup.t.org'', mx_record ''t.org'' 10 ''mx.example.com'',
                    mx_record ''t.org'' 5 ''first.t.org''] smtp_compare_mx)
      (set_why None example_state) = Inr (?t, example_state)"
    by (simp add: smtp_addr_list_def smtp_addr_one_def dns_rr_sort_def smtp_compare_mx_def
        mx_record_def example_env_def example_dns_def T_A_def T_MX_def set_why_def
        dns_rr_append_def a_record_def)
  have alu: "smtp_addr_list example_env
      (dns_rr_sort [mx_record ''u.org'' 10 ''mx.example.com''] smtp_compare_mx)
      (set_why None example_state) = Inr (?u, example_state)"
    by (simp add: smtp_addr_list_def smtp_addr_one_def dns_rr_sort_def smtp_compare_mx_def
        mx_record_def example_env_def example_dns_def T_A_def T_MX_def set_why_def
        dns_rr_append_def a_record_def)
  have ownt: "\<exists>a \<in> set ?t. INADDRP (data a) \<in> set (own_inet_addr_list example_env)"
    by (simp add: a_record_def INADDRP_in_addr_data example_env_def)
  have ownu: "\<exists>a \<in> set ?u. INADDRP (data a) \<in> set (own_inet_addr_list example_env)"
    by (simp add: a_record_def INADDRP_in_addr_data example_env_def)
  have t: "smtp_domain_addr example_env ''t.org'' example_state
     = Inr ([?a ''first.t.org'' 0x0A000003 5, ?a ''first.t.org'' 0x0A000004 5], example_state)"
    using smtp_domain_addr_truncates_at_self [OF mxt alt ownt]
    by (simp add: Let_def a_record_def INADDRP_in_addr_data example_env_def)
  have u: "smtp_domain_addr example_env ''u.org'' example_state
     = Inr ([], \<lparr>smtp_errno = SMTP_FAIL, why = ''mail for u.org loops back to myself''\<rparr>)"
    using smtp_domain_addr_truncates_at_self [OF mxu alu ownu]
    by (simp add: Let_def a_record_def INADDRP_in_addr_data example_env_def example_state_def)
  from t u show ?thesis by simp
qed

text \<open>
  Claim C3. A list that \<open>smtp_domain_addr\<close> returns is ordered by ascending preference.
  (A null list is the empty list here, so a non-null result is non-empty by construction.)
  After a successful MX lookup the exchangers are sorted by preference with the source
  order kept among equal preferences, the result is an initial part of the address records
  of the sorted exchangers, each carrying its exchanger's preference and standing in the
  order the resolver returned them; so the records of one preference stand in the source
  order of their exchangers.
\<close>

theorem smtp_domain_addr_sorted_by_pref:
  assumes res: "smtp_domain_addr env nm st = Inr (addr_list, st')"
  shows "sorted (map pref addr_list)
    \<and> (\<forall>mx_names w. dns_lookup env nm T_MX = (DNS_OK, mx_names, w) \<longrightarrow>
          sorted (map pref (dns_rr_sort mx_names smtp_compare_mx))
          \<and> (\<forall>k. filter (\<lambda>m. pref m = k) (dns_rr_sort mx_names smtp_compare_mx)
                  = filter (\<lambda>m. pref m = k) mx_names)
          \<and> prefix addr_list
               (concat (map (mx_addr_records env) (dns_rr_sort mx_names smtp_compare_mx)))
          \<and> (\<forall>k. prefix (filter (\<lambda>r. pref r = k) addr_list)
                  (concat (map (mx_addr_records env) (filter (\<lambda>m. pref m = k) mx_names)))))"
proof -
  obtain status mx_names w where mx: "dns_lookup env nm T_MX = (status, mx_names, w)"
    by (cases "dns_lookup env nm T_MX")
  let ?sorted = "dns_rr_sort mx_names smtp_compare_mx"
  let ?full = "concat (map (mx_addr_records env) ?sorted)"
  have ok: "status = DNS_OK \<Longrightarrow> prefix addr_list ?full"
    using mx res smtp_domain_addr_ok [of env nm mx_names w st addr_list st'] by simp
  have full_sorted: "sorted (map pref ?full)"
    by (rule sorted_concat_mx) (rule dns_rr_sort_sorted)
  have sorted: "sorted (map pref addr_list)"
  proof (cases status)
    case DNS_OK
    from sorted_prefix [OF ok [OF DNS_OK] full_sorted] show ?thesis .
  next
    case DNS_NOTFOUND
    with mx res have "addr_list = fst (smtp_host_addr env nm (set_why w st))"
      by (simp add: smtp_domain_addr_def)
    then have "\<forall>r \<in> set addr_list. pref r = 0"
      by (auto dest: smtp_host_addr_pref)
    then show ?thesis by (rule sorted_same_pref)
  next
    case DNS_FAIL
    with mx res show ?thesis by (simp add: smtp_domain_addr_def)
  next
    case DNS_RETRY
    with mx res show ?thesis by (simp add: smtp_domain_addr_def)
  qed
  have groups: "status = DNS_OK \<Longrightarrow>
      prefix (filter (\<lambda>r. pref r = k) addr_list)
        (concat (map (mx_addr_records env) (filter (\<lambda>m. pref m = k) mx_names)))" for k
  proof -
    assume "status = DNS_OK"
    from filter_prefix [OF ok [OF this], of "\<lambda>r. pref r = k"]
    show ?thesis by (simp add: filter_concat_mx dns_rr_sort_stable)
  qed
  show ?thesis
    using sorted mx ok groups dns_rr_sort_sorted [of mx_names] dns_rr_sort_stable [of _ mx_names]
    by simp
qed

theorem smtp_domain_addr_sorted_by_pref_witness:
  "sorted (map pref [(a_record ''first.t.org'' 0x0A000003)\<lparr>pref := 5\<rparr>,
             (a_record ''first.t.org'' 0x0A000004)\<lparr>pref := 5\<rparr>,
             (a_record ''mx.example.com'' 0x0A000001)\<lparr>pref := 10\<rparr>,
             (a_record ''backup.t.org'' 0x0A000002)\<lparr>pref := 20\<rparr>])
   \<and> prefix [(a_record ''first.t.org'' 0x0A000003)\<lparr>pref := 5\<rparr>,
             (a_record ''first.t.org'' 0x0A000004)\<lparr>pref := 5\<rparr>,
             (a_record ''mx.example.com'' 0x0A000001)\<lparr>pref := 10\<rparr>,
             (a_record ''backup.t.org'' 0x0A000002)\<lparr>pref := 20\<rparr>]
        (concat (map (mx_addr_records example_env_far)
           (dns_rr_sort [mx_record ''t.org'' 20 ''backup.t.org'',
              mx_record ''t.org'' 10 ''mx.example.com'', mx_record ''t.org'' 5 ''first.t.org'']
              smtp_compare_mx)))"
proof -
  have mx: "dns_lookup example_env_far ''t.org'' T_MX =
      (DNS_OK, [mx_record ''t.org'' 20 ''backup.t.org'', mx_record ''t.org'' 10 ''mx.example.com'',
                mx_record ''t.org'' 5 ''first.t.org''], None)"
    by (simp add: example_env_far_def example_env_def example_dns_def)
  from smtp_domain_addr_sorted_by_pref [OF example_far_t_org] mx show ?thesis
    by blast
qed



end
